theory Spec2Isabelle
  imports Main "HOL-Library.Word"
begin

section \<open>The mirrored buffer cache of \<^verbatim>\<open>buffer_cache/mirrored.hpp\<close>\<close>

text \<open>
  \<^verbatim>\<open>mirrored_cache_t<config_t>\<close> is a template that inherits from five policy classes
  (serializer, buffer allocator, page map, page replacement, writeback) and adds the
  transaction protocol on top of them: \<^verbatim>\<open>allocate\<close>, \<^verbatim>\<open>acquire\<close>, \<^verbatim>\<open>release\<close> and
  the completion funnel \<^verbatim>\<open>aio_complete\<close>. The five methods of the cache are translated
  from the header. The policy classes are template parameters whose code is not part of the
  header; each one is given the behaviour its contract describes, and is marked as such.
  All state of the object (the state of every base class, the contexts created with
  \<^verbatim>\<open>new\<close>, and the thread's cpu context) is one record that every operation takes and
  returns.
\<close>

subsection \<open>Pointers, identifiers, build configuration\<close>

text \<open>
  A pointer (\<^verbatim>\<open>void *\<close>, \<^verbatim>\<open>event_queue_t *\<close>, \<^verbatim>\<open>aio_context_t *\<close>) is a number, with
  0 the null pointer. A non-null buffer pointer \<open>p\<close> designates the \<open>p\<close>-th buffer the
  allocator handed out, a non-null context pointer \<open>c\<close> the \<open>c\<close>-th context created.
\<close>

type_synonym ptr = nat
type_synonym block_id_t = nat
type_synonym byte = "8 word"

definition NULL :: ptr where
  "NULL = 0"

text \<open>
  \<open>ndebug\<close> says whether the macro \<^verbatim>\<open>NDEBUG\<close> is defined: then every \<^verbatim>\<open>assert\<close> vanishes
  and \<^verbatim>\<open>aio_context\<close> has no \<^verbatim>\<open>event_queue\<close> member. The other two fields say how the
  policy classes of \<^verbatim>\<open>config_t\<close> behave where their contracts leave it open:
  \<open>copy_on_write\<close> says whether the writeback policy assigns a new block id to a block
  it marks dirty, \<open>malloc_fill\<close> is the byte that the buffer allocator leaves in the
  memory it hands out (0 for an allocator that clears it).
\<close>

record config_t =
  ndebug :: bool
  copy_on_write :: bool
  malloc_fill :: byte

datatype error = Assertion_Failed | Undefined_Behaviour

text \<open>\<^verbatim>\<open>struct aio_context\<close>; the member \<open>event_queue\<close> is \<open>None\<close> where it is compiled out.\<close>

record aio_context =
  user_state :: ptr
  block_id :: block_id_t
  event_queue :: "ptr option"

text \<open>An asynchronous request handed to the serializer: the four arguments of \<^verbatim>\<open>do_read\<close>.\<close>

record aio_request =
  rq_tm :: ptr
  rq_block_id :: block_id_t
  rq_buf :: ptr
  rq_ctx :: ptr

text \<open>A block recorded by the writeback policy: the arguments of \<^verbatim>\<open>mark_dirty\<close> and the
  block id it answered.\<close>

record dirty_block =
  d_tm :: ptr
  d_block_id :: block_id_t
  d_block :: ptr
  d_state :: ptr
  d_new_id :: block_id_t

text \<open>
  The state of the cache object and of its surroundings: the event queue of the running
  thread; the serializer's block size, the next block id it will generate and the reads and
  writes it has in flight; the size limit and the pin counts of page replacement; the
  buffers the allocator has handed out; the page map; the dirty blocks recorded by
  writeback; the contexts created with \<^verbatim>\<open>new\<close>, \<open>None\<close> once deleted.
\<close>

record cache_state =
  cpu_event_queue :: ptr
  block_size :: nat
  max_size :: nat
  next_block_id :: block_id_t
  reads :: "aio_request list"
  writes :: "aio_request list"
  buffers :: "byte list list"
  page_map :: "block_id_t \<rightharpoonup> ptr"
  pin_count :: "block_id_t \<Rightarrow> nat"
  dirty :: "dirty_block list"
  contexts :: "aio_context option list"

text \<open>\<^verbatim>\<open>get_cpu_context()->event_queue\<close>: the event queue of the running thread.\<close>

definition get_cpu_context_event_queue :: "cache_state \<Rightarrow> ptr" where
  "get_cpu_context_event_queue s = cpu_event_queue s"

text \<open>\<^verbatim>\<open>assert(c)\<close> passes when the condition holds or when asserts are compiled out.\<close>

definition assert_passes :: "config_t \<Rightarrow> bool \<Rightarrow> bool" where
  "assert_passes cfg c \<longleftrightarrow> ndebug cfg \<or> c"

subsection \<open>The policies\<close>

text \<open>
  Modelled from the spec: \<^verbatim>\<open>serializer_t::gen_block_id\<close> (the serializer is not in the
  header). It hands out a block id that it has not handed out before.
\<close>

definition gen_block_id :: "cache_state \<Rightarrow> block_id_t \<times> cache_state" where
  "gen_block_id s = (next_block_id s, s\<lparr>next_block_id := Suc (next_block_id s)\<rparr>)"

text \<open>
  Modelled from the spec: \<^verbatim>\<open>do_read\<close> (the serializer is not in the header). It issues an
  asynchronous read of the block into the buffer, keyed by the context; the request stays in
  flight until the serializer reports its completion through \<^verbatim>\<open>aio_complete\<close>.
\<close>

definition do_read :: "ptr \<Rightarrow> block_id_t \<Rightarrow> ptr \<Rightarrow> ptr \<Rightarrow> cache_state \<Rightarrow> cache_state" where
  "do_read tm bid buf ctx s =
     s\<lparr>reads := reads s @ [\<lparr>rq_tm = tm, rq_block_id = bid, rq_buf = buf, rq_ctx = ctx\<rparr>]\<rparr>"

text \<open>
  Modelled from the spec: \<^verbatim>\<open>buffer_alloc_t::malloc\<close> (the allocator is not in the header).
  It returns a buffer of the requested size that overlaps no buffer handed out before;
  allocation is assumed to succeed. The contract says nothing about the contents of the
  buffer: they are what the configured allocator leaves there.
\<close>

definition buffer_alloc_malloc ::
  "config_t \<Rightarrow> nat \<Rightarrow> cache_state \<Rightarrow> ptr \<times> cache_state" where
  "buffer_alloc_malloc cfg n s =
     (Suc (length (buffers s)), s\<lparr>buffers := buffers s @ [replicate n (malloc_fill cfg)]\<rparr>)"

text \<open>The contents of the buffer a pointer designates, if it designates one.\<close>

definition buffer_at :: "cache_state \<Rightarrow> ptr \<Rightarrow> byte list option" where
  "buffer_at s p = (if 0 < p \<and> p \<le> length (buffers s) then Some (buffers s ! (p - 1)) else None)"

text \<open>
  Modelled from the spec: \<^verbatim>\<open>page_map_t::find\<close> and \<^verbatim>\<open>page_map_t::set\<close> (the page map is
  not in the header). \<open>find\<close> answers the resident buffer of a block id, the null pointer
  when there is none.
\<close>

definition page_map_find :: "block_id_t \<Rightarrow> cache_state \<Rightarrow> ptr" where
  "page_map_find bid s = (case page_map s bid of None \<Rightarrow> NULL | Some p \<Rightarrow> p)"

definition page_map_set :: "block_id_t \<Rightarrow> ptr \<Rightarrow> cache_state \<Rightarrow> cache_state" where
  "page_map_set bid block s = s\<lparr>page_map := (page_map s)(bid \<mapsto> block)\<rparr>"

text \<open>
  Modelled from the spec: \<^verbatim>\<open>page_repl_t::pin\<close> and \<^verbatim>\<open>page_repl_t::unpin\<close> (page
  replacement is not in the header). They raise and lower the pin count of a block id.
  Unpinning a block that is not pinned is a contract violation: an assertion failure in a
  debug build, undefined otherwise. Eviction is never invoked by the header and is left out.
\<close>

definition page_repl_pin :: "block_id_t \<Rightarrow> cache_state \<Rightarrow> cache_state" where
  "page_repl_pin bid s = s\<lparr>pin_count := (pin_count s)(bid := Suc (pin_count s bid))\<rparr>"

definition page_repl_unpin :: "config_t \<Rightarrow> block_id_t \<Rightarrow> cache_state \<Rightarrow> error + cache_state" where
  "page_repl_unpin cfg bid s =
     (if pin_count s bid = 0
      then Inl (if ndebug cfg then Undefined_Behaviour else Assertion_Failed)
      else Inr (s\<lparr>pin_count := (pin_count s)(bid := pin_count s bid - 1)\<rparr>))"

text \<open>
  Modelled from the spec: \<^verbatim>\<open>writeback_t::mark_dirty\<close> (writeback is not in the header).
  It records the block as needing a flush and answers the block id the caller uses from
  now on: a newly generated one under a copy-on-write serializer, the same one otherwise.
\<close>

definition writeback_mark_dirty ::
  "config_t \<Rightarrow> ptr \<Rightarrow> block_id_t \<Rightarrow> ptr \<Rightarrow> ptr \<Rightarrow> cache_state \<Rightarrow> block_id_t \<times> cache_state" where
  "writeback_mark_dirty cfg tm bid block state s =
     (let (new_id, s1) = (if copy_on_write cfg then gen_block_id s else (bid, s))
      in (new_id,
          s1\<lparr>dirty := dirty s1 @
                [\<lparr>d_tm = tm, d_block_id = bid, d_block = block, d_state = state,
                  d_new_id = new_id\<rparr>]\<rparr>))"

subsection \<open>Contexts: \<^verbatim>\<open>new\<close> and \<^verbatim>\<open>delete\<close>\<close>

text \<open>\<^verbatim>\<open>new aio_context_t()\<close>: a context never returned before, its members zeroed.\<close>

definition new_aio_context :: "config_t \<Rightarrow> cache_state \<Rightarrow> ptr \<times> cache_state" where
  "new_aio_context cfg s =
     (Suc (length (contexts s)),
      s\<lparr>contexts := contexts s @
           [Some \<lparr>user_state = NULL, block_id = 0,
                  event_queue = (if ndebug cfg then None else Some NULL)\<rparr>]\<rparr>)"

text \<open>Reading through a context pointer; \<open>None\<close> for a null, wild or deleted one.\<close>

definition ctx_deref :: "cache_state \<Rightarrow> ptr \<Rightarrow> aio_context option" where
  "ctx_deref s c = (if 0 < c \<and> c \<le> length (contexts s) then contexts s ! (c - 1) else None)"

text \<open>An assignment to members of a live context; no effect through any other pointer.\<close>

definition ctx_assign :: "ptr \<Rightarrow> (aio_context \<Rightarrow> aio_context) \<Rightarrow> cache_state \<Rightarrow> cache_state" where
  "ctx_assign c f s =
     (case ctx_deref s c of
        None \<Rightarrow> s
      | Some v \<Rightarrow> s\<lparr>contexts := (contexts s)[c - 1 := Some (f v)]\<rparr>)"

definition delete_aio_context :: "ptr \<Rightarrow> cache_state \<Rightarrow> cache_state" where
  "delete_aio_context c s = s\<lparr>contexts := (contexts s)[c - 1 := None]\<rparr>"

subsection \<open>The cache\<close>

text \<open>
  The constructor \<^verbatim>\<open>mirrored_cache_t(_block_size, _max_size)\<close>, run on the thread whose
  event queue is \<open>cpu\<close>: it hands the block size to the serializer and the sizes to page
  replacement; nothing is resident, pinned or in flight.
\<close>

definition mirrored_cache_t :: "ptr \<Rightarrow> nat \<Rightarrow> nat \<Rightarrow> cache_state" where
  "mirrored_cache_t cpu bsize msize =
     \<lparr>cpu_event_queue = cpu, block_size = bsize, max_size = msize, next_block_id = 0,
      reads = [], writes = [], buffers = [], page_map = Map.empty, pin_count = (\<lambda>_. 0),
      dirty = [], contexts = []\<rparr>"

definition begin_transaction :: "cache_state \<Rightarrow> ptr" where
  "begin_transaction s = get_cpu_context_event_queue s"

definition end_transaction :: "config_t \<Rightarrow> ptr \<Rightarrow> cache_state \<Rightarrow> error + unit" where
  "end_transaction cfg transaction s =
     (if assert_passes cfg (transaction = get_cpu_context_event_queue s) then Inr ()
      else Inl Assertion_Failed)"

text \<open>\<^verbatim>\<open>allocate\<close> answers the buffer and the block id written through the out-parameter.\<close>

definition allocate ::
  "config_t \<Rightarrow> ptr \<Rightarrow> cache_state \<Rightarrow> error + ((ptr \<times> block_id_t) \<times> cache_state)" where
  "allocate cfg tm s =
     (if \<not> assert_passes cfg (tm = get_cpu_context_event_queue s) then Inl Assertion_Failed
      else
        let (bid, s1) = gen_block_id s;
            (block, s2) = buffer_alloc_malloc cfg (block_size s1) s1;
            s3 = page_map_set bid block s2;
            s4 = page_repl_pin bid s3
        in Inr ((block, bid), s4))"

definition acquire ::
  "config_t \<Rightarrow> ptr \<Rightarrow> block_id_t \<Rightarrow> ptr \<Rightarrow> cache_state \<Rightarrow> error + (ptr \<times> cache_state)" where
  "acquire cfg tm bid state s =
     (if \<not> assert_passes cfg (tm = get_cpu_context_event_queue s) then Inl Assertion_Failed
      else
        let block = page_map_find bid s in
        if block = NULL then
          let (buf, s1) = buffer_alloc_malloc cfg (block_size s) s;
              (ctx, s2) = new_aio_context cfg s1;
              s3 = ctx_assign ctx (\<lambda>c. c\<lparr>user_state := state\<rparr>) s2;
              s4 = ctx_assign ctx (\<lambda>c. c\<lparr>block_id := bid\<rparr>) s3;
              s5 = (if ndebug cfg then s4
                    else ctx_assign ctx (\<lambda>c. c\<lparr>event_queue := Some tm\<rparr>) s4);
              s6 = do_read tm bid buf ctx s5
          in Inr (block, s6)
        else Inr (block, page_repl_pin bid s))"

definition release ::
  "config_t \<Rightarrow> ptr \<Rightarrow> block_id_t \<Rightarrow> ptr \<Rightarrow> bool \<Rightarrow> ptr \<Rightarrow> cache_state
     \<Rightarrow> error + (block_id_t \<times> cache_state)" where
  "release cfg tm bid block is_dirty state s =
     (if \<not> assert_passes cfg (tm = get_cpu_context_event_queue s) then Inl Assertion_Failed
      else if is_dirty then Inr (writeback_mark_dirty cfg tm bid block state s)
      else (case page_repl_unpin cfg bid s of
              Inl e \<Rightarrow> Inl e
            | Inr s1 \<Rightarrow> Inr (bid, s1)))"

text \<open>
  \<^verbatim>\<open>aio_complete\<close>. Its assertion is written with \<^verbatim>\<open>=\<close>: it stores the running thread's
  event queue into the context and passes when the stored pointer is not null. Reading
  through a deleted or wild context pointer is undefined.
\<close>

definition aio_complete ::
  "config_t \<Rightarrow> ptr \<Rightarrow> ptr \<Rightarrow> bool \<Rightarrow> cache_state \<Rightarrow> error + cache_state" where
  "aio_complete cfg ctx block written s =
     (case ctx_deref s ctx of
        None \<Rightarrow> Inl Undefined_Behaviour
      | Some c \<Rightarrow>
          let s1 = (if ndebug cfg then s
                    else ctx_assign ctx
                           (\<lambda>c. c\<lparr>event_queue := Some (get_cpu_context_event_queue s)\<rparr>) s)
          in
          if \<not> assert_passes cfg (get_cpu_context_event_queue s \<noteq> NULL) then Inl Assertion_Failed
          else
            let bid = block_id c;
                s2 = delete_aio_context ctx s1
            in
            if written then page_repl_unpin cfg bid s2
            else Inr (page_repl_pin bid (page_map_set bid block s2)))"

subsection \<open>Writeback flush and the event loop\<close>

text \<open>
  Modelled from the spec: \<^verbatim>\<open>do_write\<close>, the serializer's asynchronous write (the
  serializer is not in the header); the request stays in flight until its completion is
  reported through \<^verbatim>\<open>aio_complete\<close>.
\<close>

definition do_write :: "ptr \<Rightarrow> block_id_t \<Rightarrow> ptr \<Rightarrow> ptr \<Rightarrow> cache_state \<Rightarrow> cache_state" where
  "do_write tm bid buf ctx s =
     s\<lparr>writes := writes s @ [\<lparr>rq_tm = tm, rq_block_id = bid, rq_buf = buf, rq_ctx = ctx\<rparr>]\<rparr>"

definition remove_nth :: "nat \<Rightarrow> 'a list \<Rightarrow> 'a list" where
  "remove_nth n xs = take n xs @ drop (Suc n) xs"

text \<open>
  Modelled from the spec: the flush of the writeback policy (writeback is not in the
  header). On its own schedule it takes a dirty block, the \<open>n\<close>-th one recorded, and issues
  its asynchronous write, tagged with a context made for it. The context names the block id
  that \<^verbatim>\<open>release\<close> left pinned, so that the completion releases that pin; the write
  goes to the block id \<^verbatim>\<open>mark_dirty\<close> answered.
\<close>

definition writeback_flush :: "config_t \<Rightarrow> nat \<Rightarrow> cache_state \<Rightarrow> cache_state" where
  "writeback_flush cfg n s =
     (if n < length (dirty s) then
        let d = dirty s ! n;
            s0 = s\<lparr>dirty := remove_nth n (dirty s)\<rparr>;
            (ctx, s1) = new_aio_context cfg s0;
            s2 = ctx_assign ctx (\<lambda>c. c\<lparr>user_state := d_state d\<rparr>) s1;
            s3 = ctx_assign ctx (\<lambda>c. c\<lparr>block_id := d_block_id d\<rparr>) s2;
            s4 = (if ndebug cfg then s3
                  else ctx_assign ctx (\<lambda>c. c\<lparr>event_queue := Some (d_tm d)\<rparr>) s3)
        in do_write (d_tm d) (d_new_id d) (d_block d) ctx s4
      else s)"

text \<open>
  What happens to a cache: a caller allocates, acquires or releases; the writeback policy
  flushes a dirty block; the serializer reports the completion of a read or of a write in
  flight, in any order, by calling \<^verbatim>\<open>aio_complete\<close> with the context and the buffer of
  the request; the scheduler moves on to the thread that owns another event queue.
  A completion or flush that names no request or dirty block does nothing.
\<close>

datatype event =
    Allocate ptr
  | Acquire ptr block_id_t ptr
  | Release ptr block_id_t ptr bool ptr
  | Flush nat
  | Read_Done nat
  | Write_Done nat
  | Run_Thread ptr

fun step :: "config_t \<Rightarrow> event \<Rightarrow> cache_state \<Rightarrow> error + cache_state" where
  "step cfg (Allocate tm) s =
     (case allocate cfg tm s of Inl e \<Rightarrow> Inl e | Inr (r, s') \<Rightarrow> Inr s')"
| "step cfg (Acquire tm bid state) s =
     (case acquire cfg tm bid state s of Inl e \<Rightarrow> Inl e | Inr (r, s') \<Rightarrow> Inr s')"
| "step cfg (Release tm bid block is_dirty state) s =
     (case release cfg tm bid block is_dirty state s of Inl e \<Rightarrow> Inl e | Inr (r, s') \<Rightarrow> Inr s')"
| "step cfg (Flush n) s = Inr (writeback_flush cfg n s)"
| "step cfg (Read_Done n) s =
     (if n < length (reads s) then
        let r = reads s ! n
        in aio_complete cfg (rq_ctx r) (rq_buf r) False (s\<lparr>reads := remove_nth n (reads s)\<rparr>)
      else Inr s)"
| "step cfg (Write_Done n) s =
     (if n < length (writes s) then
        let r = writes s ! n
        in aio_complete cfg (rq_ctx r) (rq_buf r) True (s\<lparr>writes := remove_nth n (writes s)\<rparr>)
      else Inr s)"
| "step cfg (Run_Thread q) s = Inr (s\<lparr>cpu_event_queue := q\<rparr>)"

fun run :: "config_t \<Rightarrow> event list \<Rightarrow> cache_state \<Rightarrow> error + cache_state" where
  "run cfg [] s = Inr s"
| "run cfg (ev # evs) s = (case step cfg ev s of Inl e \<Rightarrow> Inl e | Inr s' \<Rightarrow> run cfg evs s')"

subsection \<open>Accounting of references and pending writes\<close>

text \<open>
  The references transactions hold on a block id: one is taken when \<^verbatim>\<open>allocate\<close> answers
  that id, when \<^verbatim>\<open>acquire\<close> finds the block resident, and when the read of a deferred
  \<^verbatim>\<open>acquire\<close> completes; one is given back by every \<^verbatim>\<open>release\<close>.
\<close>

fun ref_delta :: "event \<Rightarrow> cache_state \<Rightarrow> block_id_t \<Rightarrow> int" where
  "ref_delta (Allocate tm) s b = (if b = fst (gen_block_id s) then 1 else 0)"
| "ref_delta (Acquire tm bid state) s b =
     (if b = bid \<and> page_map_find bid s \<noteq> NULL then 1 else 0)"
| "ref_delta (Release tm bid block is_dirty state) s b = (if b = bid then - 1 else 0)"
| "ref_delta (Read_Done n) s b =
     (if n < length (reads s) \<and> rq_block_id (reads s ! n) = b then 1 else 0)"
| "ref_delta (Flush n) s b = 0"
| "ref_delta (Write_Done n) s b = 0"
| "ref_delta (Run_Thread q) s b = 0"

fun refs_taken :: "config_t \<Rightarrow> event list \<Rightarrow> cache_state \<Rightarrow> block_id_t \<Rightarrow> int" where
  "refs_taken cfg [] s b = 0"
| "refs_taken cfg (ev # evs) s b =
     (case step cfg ev s of
        Inl e \<Rightarrow> 0
      | Inr s' \<Rightarrow> ref_delta ev s b + refs_taken cfg evs s' b)"

text \<open>
  The writes pending for a block id: the dirty blocks recorded under it and not flushed
  yet, and the writes in flight whose context names it.
\<close>

definition write_names :: "cache_state \<Rightarrow> block_id_t \<Rightarrow> aio_request \<Rightarrow> bool" where
  "write_names s b r = (case ctx_deref s (rq_ctx r) of None \<Rightarrow> False | Some c \<Rightarrow> block_id c = b)"

definition pending_writes :: "cache_state \<Rightarrow> block_id_t \<Rightarrow> nat" where
  "pending_writes s b =
     length (filter (\<lambda>d. d_block_id d = b) (dirty s)) + length (filter (write_names s b) (writes s))"

text \<open>
  Well-formed states: resident buffers and read buffers come from the allocator, the
  contexts of the requests in flight are live and pairwise different, and the context of a
  read names the block being read.
\<close>

definition cache_inv :: "cache_state \<Rightarrow> bool" where
  "cache_inv s \<longleftrightarrow>
     (\<forall>b p. page_map s b = Some p \<longrightarrow> 0 < p \<and> p \<le> length (buffers s)) \<and>
     (\<forall>r \<in> set (reads s). 0 < rq_buf r \<and> rq_buf r \<le> length (buffers s)) \<and>
     distinct (map rq_ctx (reads s @ writes s)) \<and>
     (\<forall>r \<in> set (reads s). \<exists>c. ctx_deref s (rq_ctx r) = Some c \<and> block_id c = rq_block_id r) \<and>
     (\<forall>r \<in> set (writes s). ctx_deref s (rq_ctx r) \<noteq> None)"

subsection \<open>A sample configuration and state\<close>

text \<open>
  A debug build over a copy-on-write serializer and an allocator that clears memory, and a
  state in which block 7 is resident in buffer 1 and pinned once, with a context for
  block 7 live.
\<close>

definition sample_cfg :: config_t where
  "sample_cfg = \<lparr>ndebug = False, copy_on_write = True, malloc_fill = 0\<rparr>"

definition sample_state :: cache_state where
  "sample_state =
     \<lparr>cpu_event_queue = 1, block_size = 4, max_size = 8, next_block_id = 8, reads = [], writes = [],
      buffers = [replicate 4 0], page_map = [7 \<mapsto> 1], pin_count = (\<lambda>_. 0)(7 := 1),
      dirty = [], contexts = [Some \<lparr>user_state = 9, block_id = 7, event_queue = Some 1\<rparr>]\<rparr>"

text \<open>
  The same state with block 7 unpinned and no context live, and the events of a transaction
  that acquires block 7, releases it dirty, and sees it flushed and written.
\<close>

definition sample_idle :: cache_state where
  "sample_idle = sample_state\<lparr>pin_count := (\<lambda>_. 0), contexts := []\<rparr>"

definition sample_events :: "event list" where
  "sample_events = [Acquire 1 7 9, Release 1 7 1 True 9, Flush 0, Write_Done 0]"


section \<open>What each operation does to the state\<close>

lemmas policy_defs = get_cpu_context_event_queue_def gen_block_id_def do_read_def do_write_def
  buffer_alloc_malloc_def page_map_find_def page_map_set_def page_repl_pin_def
  new_aio_context_def ctx_deref_def ctx_assign_def delete_aio_context_def

lemmas run_defs = acquire_def allocate_def release_def aio_complete_def writeback_flush_def
  writeback_mark_dirty_def page_repl_unpin_def assert_passes_def remove_nth_def
  mirrored_cache_t_def NULL_def policy_defs Let_def

lemmas sample_defs = sample_cfg_def sample_state_def sample_idle_def sample_events_def

lemma acquire_miss:
  assumes "assert_passes cfg (tm = cpu_event_queue s)" and "page_map_find bid s = NULL"
  shows "acquire cfg tm bid state s =
    Inr (NULL, s\<lparr>reads := reads s @ [\<lparr>rq_tm = tm, rq_block_id = bid,
                      rq_buf = Suc (length (buffers s)), rq_ctx = Suc (length (contexts s))\<rparr>],
                 buffers := buffers s @ [replicate (block_size s) (malloc_fill cfg)],
                 contexts := contexts s @ [Some \<lparr>user_state = state, block_id = bid,
                      event_queue = (if ndebug cfg then None else Some tm)\<rparr>]\<rparr>)"
  using assms by (simp add: acquire_def policy_defs Let_def)

lemma acquire_hit:
  assumes "assert_passes cfg (tm = cpu_event_queue s)" and "page_map_find bid s \<noteq> NULL"
  shows "acquire cfg tm bid state s =
    Inr (page_map_find bid s, s\<lparr>pin_count := (pin_count s)(bid := Suc (pin_count s bid))\<rparr>)"
  using assms by (simp add: acquire_def page_repl_pin_def get_cpu_context_event_queue_def Let_def)

lemma allocate_ok:
  assumes "assert_passes cfg (tm = cpu_event_queue s)"
  shows "allocate cfg tm s =
    Inr ((Suc (length (buffers s)), next_block_id s),
         s\<lparr>next_block_id := Suc (next_block_id s),
           buffers := buffers s @ [replicate (block_size s) (malloc_fill cfg)],
           page_map := (page_map s)(next_block_id s \<mapsto> Suc (length (buffers s))),
           pin_count := (pin_count s)(next_block_id s := Suc (pin_count s (next_block_id s)))\<rparr>)"
  using assms by (simp add: allocate_def policy_defs Let_def)

lemma release_clean:
  assumes "assert_passes cfg (tm = cpu_event_queue s)" and "0 < pin_count s bid"
  shows "release cfg tm bid block False state s =
     Inr (bid, s\<lparr>pin_count := (pin_count s)(bid := pin_count s bid - 1)\<rparr>)"
  using assms by (simp add: release_def page_repl_unpin_def get_cpu_context_event_queue_def)

lemma release_dirty:
  assumes "assert_passes cfg (tm = cpu_event_queue s)"
  shows "release cfg tm bid block True state s =
     Inr (if copy_on_write cfg then next_block_id s else bid,
          s\<lparr>next_block_id := (if copy_on_write cfg then Suc (next_block_id s) else next_block_id s),
            dirty := dirty s @ [\<lparr>d_tm = tm, d_block_id = bid, d_block = block, d_state = state,
                  d_new_id = (if copy_on_write cfg then next_block_id s else bid)\<rparr>]\<rparr>)"
  using assms
  by (simp add: release_def writeback_mark_dirty_def gen_block_id_def
      get_cpu_context_event_queue_def)

lemma writeback_flush_last:
  "writeback_flush cfg (length ds) (s\<lparr>dirty := ds @ [d]\<rparr>) =
     s\<lparr>dirty := ds,
       contexts := contexts s @ [Some \<lparr>user_state = d_state d, block_id = d_block_id d,
           event_queue = (if ndebug cfg then None else Some (d_tm d))\<rparr>],
       writes := writes s @ [\<lparr>rq_tm = d_tm d, rq_block_id = d_new_id d, rq_buf = d_block d,
           rq_ctx = Suc (length (contexts s))\<rparr>]\<rparr>"
  by (simp add: writeback_flush_def remove_nth_def policy_defs Let_def)

lemma aio_complete_read:
  assumes "ctx_deref s ctx = Some c" and "assert_passes cfg (cpu_event_queue s \<noteq> NULL)"
  shows "aio_complete cfg ctx block False s =
    Inr (s\<lparr>contexts := (contexts s)[ctx - 1 := None],
           page_map := (page_map s)(block_id c \<mapsto> block),
           pin_count := (pin_count s)(block_id c := Suc (pin_count s (block_id c)))\<rparr>)"
  using assms by (simp add: aio_complete_def policy_defs Let_def split: if_splits)

lemma aio_complete_write:
  assumes "ctx_deref s ctx = Some c" and "assert_passes cfg (cpu_event_queue s \<noteq> NULL)"
    and "0 < pin_count s (block_id c)"
  shows "aio_complete cfg ctx block True s =
    Inr (s\<lparr>contexts := (contexts s)[ctx - 1 := None],
           pin_count := (pin_count s)(block_id c := pin_count s (block_id c) - 1)\<rparr>)"
  using assms
  by (simp add: aio_complete_def policy_defs page_repl_unpin_def Let_def split: if_splits)

lemma aio_complete_write_only_unpins:
  assumes "aio_complete cfg ctx block True s = Inr s'"
  shows "\<exists>c. ctx_deref s ctx = Some c \<and> 0 < pin_count s (block_id c) \<and>
           s' = s\<lparr>contexts := (contexts s)[ctx - 1 := None],
                  pin_count := (pin_count s)(block_id c := pin_count s (block_id c) - 1)\<rparr>"
proof (cases "ctx_deref s ctx")
  case None
  with assms show ?thesis by (simp add: aio_complete_def)
next
  case (Some c)
  have nn: "assert_passes cfg (cpu_event_queue s \<noteq> NULL)"
    using assms Some
    by (simp add: aio_complete_def get_cpu_context_event_queue_def Let_def split: if_splits)
  have pinned: "0 < pin_count s (block_id c)"
    using assms Some
    by (auto simp: aio_complete_def policy_defs page_repl_unpin_def Let_def split: if_splits)
  from aio_complete_write [OF Some nn pinned, of block] assms Some pinned show ?thesis
    by simp
qed

text \<open>Which calls fail their context assertion.\<close>

lemma end_transaction_assertion:
  "end_transaction cfg transaction s = Inl Assertion_Failed \<longleftrightarrow>
     \<not> ndebug cfg \<and> transaction \<noteq> get_cpu_context_event_queue s"
  by (simp add: end_transaction_def assert_passes_def)

lemma end_transaction_of_begin: "end_transaction cfg (begin_transaction s) s = Inr ()"
  by (simp add: end_transaction_def begin_transaction_def assert_passes_def)

lemma aio_complete_read_assertion:
  assumes "ctx_deref s ctx = Some c"
  shows "aio_complete cfg ctx block False s = Inl Assertion_Failed \<longleftrightarrow>
     \<not> ndebug cfg \<and> get_cpu_context_event_queue s = NULL"
  using assms by (simp add: aio_complete_def assert_passes_def Let_def)

lemma cache_inv_initial: "cache_inv (mirrored_cache_t cpu bsize msize)"
  by (simp add: cache_inv_def mirrored_cache_t_def)

section \<open>Well-formed states and the balance of pins\<close>

subsection \<open>Lists with one element removed\<close>

lemma set_remove_nth: "set (remove_nth n xs) \<subseteq> set xs"
  unfolding remove_nth_def using set_take_subset [of n xs] set_drop_subset [of "Suc n" xs]
  by auto

lemma split_at_nth: "n < length xs \<Longrightarrow> xs = take n xs @ xs ! n # drop (Suc n) xs"
  by (rule id_take_nth_drop)

lemma filter_remove_nth:
  assumes "n < length xs"
  shows "length (filter P xs) = length (filter P (remove_nth n xs)) + (if P (xs ! n) then 1 else 0)"
proof -
  have "filter P xs = filter P (take n xs @ xs ! n # drop (Suc n) xs)"
    using split_at_nth [OF assms] by simp
  then show ?thesis
    by (simp add: remove_nth_def)
qed

lemma distinct_remove_nth:
  assumes "distinct (map f xs)" and "n < length xs"
  shows "distinct (map f (remove_nth n xs))"
    and "\<forall>x \<in> set (remove_nth n xs). f x \<noteq> f (xs ! n)"
proof -
  have "distinct (map f (take n xs @ xs ! n # drop (Suc n) xs))"
    using assms split_at_nth [of n xs] by simp
  then show "distinct (map f (remove_nth n xs))"
    and "\<forall>x \<in> set (remove_nth n xs). f x \<noteq> f (xs ! n)"
    by (auto simp: remove_nth_def image_iff)
qed

subsection \<open>Reading through context pointers after a change of the context store\<close>

lemma ctx_deref_live: "ctx_deref s c \<noteq> None \<Longrightarrow> 0 < c \<and> c \<le> length (contexts s)"
  by (simp add: ctx_deref_def split: if_splits)

lemma ctx_deref_append:
  "contexts s' = contexts s @ [x] \<Longrightarrow>
     ctx_deref s' c = (if c = Suc (length (contexts s)) then x else ctx_deref s c)"
  by (auto simp: ctx_deref_def nth_append)

lemma ctx_deref_update:
  "ctx_deref s c0 \<noteq> None \<Longrightarrow> contexts s' = (contexts s)[c0 - 1 := v] \<Longrightarrow>
     ctx_deref s' c = (if c = c0 then v else ctx_deref s c)"
  by (auto simp: ctx_deref_def nth_list_update split: if_splits)

lemma ctx_deref_same: "contexts s' = contexts s \<Longrightarrow> ctx_deref s' c = ctx_deref s c"
  by (simp add: ctx_deref_def)

lemma filter_write_names_cong:
  assumes "\<forall>r \<in> set ws. ctx_deref s' (rq_ctx r) = ctx_deref s (rq_ctx r)"
  shows "filter (write_names s' b) ws = filter (write_names s b) ws"
  using assms by (intro filter_cong) (auto simp: write_names_def)

subsection \<open>The state after each successful step\<close>

lemma step_Allocate:
  assumes "step cfg (Allocate tm) s = Inr s'"
  shows "s' = s\<lparr>next_block_id := Suc (next_block_id s),
           buffers := buffers s @ [replicate (block_size s) (malloc_fill cfg)],
           page_map := (page_map s)(next_block_id s \<mapsto> Suc (length (buffers s))),
           pin_count := (pin_count s)(next_block_id s := Suc (pin_count s (next_block_id s)))\<rparr>"
proof (cases "assert_passes cfg (tm = cpu_event_queue s)")
  case True
  from allocate_ok [OF True] assms show ?thesis by simp
next
  case False
  with assms show ?thesis
    by (simp add: allocate_def get_cpu_context_event_queue_def)
qed

lemma step_Acquire:
  assumes "step cfg (Acquire tm bid state) s = Inr s'"
  shows "(page_map_find bid s \<noteq> NULL \<and>
          s' = s\<lparr>pin_count := (pin_count s)(bid := Suc (pin_count s bid))\<rparr>) \<or>
         (page_map_find bid s = NULL \<and>
          s' = s\<lparr>reads := reads s @ [\<lparr>rq_tm = tm, rq_block_id = bid,
                      rq_buf = Suc (length (buffers s)), rq_ctx = Suc (length (contexts s))\<rparr>],
                 buffers := buffers s @ [replicate (block_size s) (malloc_fill cfg)],
                 contexts := contexts s @ [Some \<lparr>user_state = state, block_id = bid,
                      event_queue = (if ndebug cfg then None else Some tm)\<rparr>]\<rparr>)"
proof (cases "assert_passes cfg (tm = cpu_event_queue s)")
  case True
  show ?thesis
  proof (cases "page_map_find bid s = NULL")
    case miss: True
    from acquire_miss [OF True miss, of state] assms miss show ?thesis by simp
  next
    case hit: False
    from acquire_hit [OF True hit, of state] assms hit show ?thesis by simp
  qed
next
  case False
  with assms show ?thesis
    by (simp add: acquire_def get_cpu_context_event_queue_def)
qed

lemma step_Release:
  assumes "step cfg (Release tm bid block is_dirty state) s = Inr s'"
  shows "(\<not> is_dirty \<and> 0 < pin_count s bid \<and>
          s' = s\<lparr>pin_count := (pin_count s)(bid := pin_count s bid - 1)\<rparr>) \<or>
         (is_dirty \<and> (\<exists>n new_id. s' = s\<lparr>next_block_id := n,
            dirty := dirty s @ [\<lparr>d_tm = tm, d_block_id = bid, d_block = block, d_state = state,
                  d_new_id = new_id\<rparr>]\<rparr>))"
proof (cases "assert_passes cfg (tm = cpu_event_queue s)")
  case True
  show ?thesis
  proof (cases is_dirty)
    case d: True
    from release_dirty [OF True, of bid block state] assms d show ?thesis
      by auto
  next
    case c: False
    show ?thesis
    proof (cases "0 < pin_count s bid")
      case p: True
      from release_clean [OF True p, of block state] assms c p show ?thesis by simp
    next
      case z: False
      with assms c True show ?thesis
        by (simp add: release_def page_repl_unpin_def get_cpu_context_event_queue_def)
    qed
  qed
next
  case False
  with assms show ?thesis
    by (simp add: release_def get_cpu_context_event_queue_def)
qed

lemma writeback_flush_nth:
  assumes "n < length (dirty s)"
  shows "writeback_flush cfg n s =
     s\<lparr>dirty := remove_nth n (dirty s),
       contexts := contexts s @ [Some \<lparr>user_state = d_state (dirty s ! n),
           block_id = d_block_id (dirty s ! n),
           event_queue = (if ndebug cfg then None else Some (d_tm (dirty s ! n)))\<rparr>],
       writes := writes s @ [\<lparr>rq_tm = d_tm (dirty s ! n), rq_block_id = d_new_id (dirty s ! n),
           rq_buf = d_block (dirty s ! n), rq_ctx = Suc (length (contexts s))\<rparr>]\<rparr>"
  using assms by (simp add: writeback_flush_def policy_defs Let_def)

lemma aio_complete_Inr:
  assumes "aio_complete cfg ctx block written s = Inr s'"
  shows "\<exists>c. ctx_deref s ctx = Some c \<and> assert_passes cfg (cpu_event_queue s \<noteq> NULL)"
  using assms
  by (cases "ctx_deref s ctx")
     (simp_all add: aio_complete_def get_cpu_context_event_queue_def Let_def split: if_splits)

lemma step_Read_Done:
  assumes "step cfg (Read_Done n) s = Inr s'" and "n < length (reads s)"
  shows "\<exists>c. ctx_deref s (rq_ctx (reads s ! n)) = Some c \<and>
     s' = s\<lparr>reads := remove_nth n (reads s),
            contexts := (contexts s)[rq_ctx (reads s ! n) - 1 := None],
            page_map := (page_map s)(block_id c \<mapsto> rq_buf (reads s ! n)),
            pin_count := (pin_count s)(block_id c := Suc (pin_count s (block_id c)))\<rparr>"
proof -
  let ?r = "reads s ! n" and ?s0 = "s\<lparr>reads := remove_nth n (reads s)\<rparr>"
  have run: "aio_complete cfg (rq_ctx ?r) (rq_buf ?r) False ?s0 = Inr s'"
    using assms by (simp add: Let_def)
  from aio_complete_Inr [OF run] obtain c
    where c: "ctx_deref ?s0 (rq_ctx ?r) = Some c"
      and nn: "assert_passes cfg (cpu_event_queue ?s0 \<noteq> NULL)"
    by blast
  have "ctx_deref s (rq_ctx ?r) = Some c"
    using c by (simp add: ctx_deref_def split: if_splits)
  moreover have "s' = ?s0\<lparr>contexts := (contexts ?s0)[rq_ctx ?r - 1 := None],
           page_map := (page_map ?s0)(block_id c \<mapsto> rq_buf ?r),
           pin_count := (pin_count ?s0)(block_id c := Suc (pin_count ?s0 (block_id c)))\<rparr>"
    using aio_complete_read [OF c nn, of "rq_buf ?r"] run by simp
  ultimately show ?thesis
    by simp
qed

lemma step_Write_Done:
  assumes "step cfg (Write_Done n) s = Inr s'" and "n < length (writes s)"
  shows "\<exists>c. ctx_deref s (rq_ctx (writes s ! n)) = Some c \<and> 0 < pin_count s (block_id c) \<and>
     s' = s\<lparr>writes := remove_nth n (writes s),
            contexts := (contexts s)[rq_ctx (writes s ! n) - 1 := None],
            pin_count := (pin_count s)(block_id c := pin_count s (block_id c) - 1)\<rparr>"
proof -
  let ?r = "writes s ! n" and ?s0 = "s\<lparr>writes := remove_nth n (writes s)\<rparr>"
  have run: "aio_complete cfg (rq_ctx ?r) (rq_buf ?r) True ?s0 = Inr s'"
    using assms by (simp add: Let_def)
  from aio_complete_write_only_unpins [OF run] obtain c
    where c: "ctx_deref ?s0 (rq_ctx ?r) = Some c" and p: "0 < pin_count ?s0 (block_id c)"
      and s': "s' = ?s0\<lparr>contexts := (contexts ?s0)[rq_ctx ?r - 1 := None],
           pin_count := (pin_count ?s0)(block_id c := pin_count ?s0 (block_id c) - 1)\<rparr>"
    by blast
  have "ctx_deref s (rq_ctx ?r) = Some c"
    using c by (simp add: ctx_deref_def split: if_splits)
  with p s' show ?thesis
    by simp
qed

subsection \<open>Well-formedness is kept by every step\<close>

lemma inv_ctx_bound:
  assumes "cache_inv s" and "r \<in> set (reads s) \<or> r \<in> set (writes s)"
  shows "ctx_deref s (rq_ctx r) \<noteq> None" and "rq_ctx r \<noteq> Suc (length (contexts s))"
proof -
  show live: "ctx_deref s (rq_ctx r) \<noteq> None"
    using assms by (fastforce simp: cache_inv_def)
  from ctx_deref_live [OF live] show "rq_ctx r \<noteq> Suc (length (contexts s))"
    by simp
qed

lemma inv_page:
  "cache_inv s \<Longrightarrow> page_map s b = Some p \<Longrightarrow> 0 < p \<and> p \<le> length (buffers s)"
  by (simp add: cache_inv_def)

lemma inv_read_buf:
  "cache_inv s \<Longrightarrow> r \<in> set (reads s) \<Longrightarrow> 0 < rq_buf r \<and> rq_buf r \<le> length (buffers s)"
  by (simp add: cache_inv_def)

lemma inv_read_ctx:
  "cache_inv s \<Longrightarrow> r \<in> set (reads s) \<Longrightarrow>
     \<exists>c. ctx_deref s (rq_ctx r) = Some c \<and> block_id c = rq_block_id r"
  by (simp add: cache_inv_def)

lemma inv_distinct: "cache_inv s \<Longrightarrow> distinct (map rq_ctx (reads s @ writes s))"
  by (simp add: cache_inv_def)

lemma fresh_ctx:
  assumes "cache_inv s"
  shows "Suc (length (contexts s)) \<notin> rq_ctx ` (set (reads s) \<union> set (writes s))"
proof
  assume "Suc (length (contexts s)) \<in> rq_ctx ` (set (reads s) \<union> set (writes s))"
  then show False
  proof (rule imageE)
    fix r assume eq: "Suc (length (contexts s)) = rq_ctx r"
      and "r \<in> set (reads s) \<union> set (writes s)"
    then have "r \<in> set (reads s) \<or> r \<in> set (writes s)"
      by simp
    from inv_ctx_bound(2) [OF assms this] eq show False
      by simp
  qed
qed

lemma cache_inv_same_requests:
  assumes "cache_inv s" and "contexts s' = contexts s" and "reads s' = reads s"
    and "writes s' = writes s" and "length (buffers s) \<le> length (buffers s')"
    and "\<forall>b p. page_map s' b = Some p \<longrightarrow> 0 < p \<and> p \<le> length (buffers s')"
  shows "cache_inv s'"
proof -
  have "ctx_deref s' = ctx_deref s"
    using assms(2) by (intro ext) (rule ctx_deref_same)
  with assms show ?thesis
    by (fastforce simp: cache_inv_def)
qed

lemma cache_inv_Allocate:
  assumes "cache_inv s" and "step cfg (Allocate tm) s = Inr s'"
  shows "cache_inv s'"
proof (rule cache_inv_same_requests [OF assms(1)])
  show "\<forall>b p. page_map s' b = Some p \<longrightarrow> 0 < p \<and> p \<le> length (buffers s')"
    unfolding step_Allocate [OF assms(2)]
    by (auto dest!: inv_page [OF assms(1)])
qed (simp_all add: step_Allocate [OF assms(2)])

lemma cache_inv_Acquire:
  assumes "cache_inv s" and "step cfg (Acquire tm bid state) s = Inr s'"
  shows "cache_inv s'"
proof -
  from step_Acquire [OF assms(2)] show ?thesis
  proof (elim disjE conjE)
    assume "s' = s\<lparr>pin_count := (pin_count s)(bid := Suc (pin_count s bid))\<rparr>"
    with assms(1) show ?thesis
      by (intro cache_inv_same_requests [OF assms(1)]) (auto simp: cache_inv_def)
  next
    let ?r = "\<lparr>rq_tm = tm, rq_block_id = bid,
                rq_buf = Suc (length (buffers s)), rq_ctx = Suc (length (contexts s))\<rparr>"
    let ?c = "\<lparr>user_state = state, block_id = bid,
                event_queue = (if ndebug cfg then None else Some tm)\<rparr>"
    assume s': "s' = s\<lparr>reads := reads s @ [?r],
                 buffers := buffers s @ [replicate (block_size s) (malloc_fill cfg)],
                 contexts := contexts s @ [Some ?c]\<rparr>"
    have cs: "contexts s' = contexts s @ [Some ?c]"
      by (simp add: s')
    have old: "ctx_deref s' (rq_ctx r) = ctx_deref s (rq_ctx r)"
      if "r \<in> set (reads s) \<or> r \<in> set (writes s)" for r
      using inv_ctx_bound(2) [OF assms(1) that] by (simp add: ctx_deref_append [OF cs])
    have new: "ctx_deref s' (Suc (length (contexts s))) = Some ?c"
      by (simp add: ctx_deref_append [OF cs])
    have 1: "\<forall>b p. page_map s' b = Some p \<longrightarrow> 0 < p \<and> p \<le> length (buffers s')"
      by (auto simp: s' dest!: inv_page [OF assms(1)])
    have 2: "\<forall>r \<in> set (reads s'). 0 < rq_buf r \<and> rq_buf r \<le> length (buffers s')"
      by (auto simp: s' dest!: inv_read_buf [OF assms(1)])
    have 3: "distinct (map rq_ctx (reads s' @ writes s'))"
      using inv_distinct [OF assms(1)] fresh_ctx [OF assms(1)] by (simp add: s' image_Un)
    have 4: "\<forall>r \<in> set (reads s').
        \<exists>c. ctx_deref s' (rq_ctx r) = Some c \<and> block_id c = rq_block_id r"
    proof
      fix r assume "r \<in> set (reads s')"
      then have "r \<in> set (reads s) \<or> r = ?r"
        by (auto simp: s')
      then show "\<exists>c. ctx_deref s' (rq_ctx r) = Some c \<and> block_id c = rq_block_id r"
      proof
        assume r: "r \<in> set (reads s)"
        then have "ctx_deref s' (rq_ctx r) = ctx_deref s (rq_ctx r)"
          using old by blast
        with assms(1) r show ?thesis
          by (simp add: cache_inv_def)
      next
        assume "r = ?r"
        with new show ?thesis by simp
      qed
    qed
    have 5: "\<forall>r \<in> set (writes s'). ctx_deref s' (rq_ctx r) \<noteq> None"
    proof
      fix r assume "r \<in> set (writes s')"
      then have r: "r \<in> set (writes s)"
        by (simp add: s')
      then have "ctx_deref s' (rq_ctx r) = ctx_deref s (rq_ctx r)"
        using old by blast
      with inv_ctx_bound(1) [OF assms(1), of r] r show "ctx_deref s' (rq_ctx r) \<noteq> None"
        by simp
    qed
    from 1 2 3 4 5 show ?thesis
      unfolding cache_inv_def by blast
  qed
qed

lemma cache_inv_Release:
  assumes "cache_inv s" and "step cfg (Release tm bid block is_dirty state) s = Inr s'"
  shows "cache_inv s'"
  using step_Release [OF assms(2)] assms(1)
  by (intro cache_inv_same_requests [OF assms(1)]) (auto simp: cache_inv_def)

lemma remove_nth_append1: "n < length xs \<Longrightarrow> remove_nth n (xs @ ys) = remove_nth n xs @ ys"
  by (simp add: remove_nth_def)

lemma remove_nth_append2: "remove_nth (length xs + n) (xs @ ys) = xs @ remove_nth n ys"
  by (simp add: remove_nth_def)

lemma other_ctx_read:
  assumes "cache_inv s" and "n < length (reads s)"
  shows "distinct (map rq_ctx (remove_nth n (reads s) @ writes s))"
    and "\<forall>r \<in> set (remove_nth n (reads s) @ writes s). rq_ctx r \<noteq> rq_ctx (reads s ! n)"
proof -
  have n: "n < length (reads s @ writes s)"
    using assms(2) by simp
  from distinct_remove_nth [OF inv_distinct [OF assms(1)] n]
  show "distinct (map rq_ctx (remove_nth n (reads s) @ writes s))"
    and "\<forall>r \<in> set (remove_nth n (reads s) @ writes s). rq_ctx r \<noteq> rq_ctx (reads s ! n)"
    using assms(2) by (simp_all add: remove_nth_append1 nth_append)
qed

lemma other_ctx_write:
  assumes "cache_inv s" and "n < length (writes s)"
  shows "distinct (map rq_ctx (reads s @ remove_nth n (writes s)))"
    and "\<forall>r \<in> set (reads s @ remove_nth n (writes s)). rq_ctx r \<noteq> rq_ctx (writes s ! n)"
proof -
  have n: "length (reads s) + n < length (reads s @ writes s)"
    using assms(2) by simp
  from distinct_remove_nth [OF inv_distinct [OF assms(1)] n]
  show "distinct (map rq_ctx (reads s @ remove_nth n (writes s)))"
    and "\<forall>r \<in> set (reads s @ remove_nth n (writes s)). rq_ctx r \<noteq> rq_ctx (writes s ! n)"
    by (simp_all add: remove_nth_append2)
qed

text \<open>Well-formedness after a context is deleted and its request leaves the lists.\<close>

lemma cache_inv_completed:
  assumes inv: "cache_inv s"
    and live: "ctx_deref s c0 \<noteq> None"
    and cs: "contexts s' = (contexts s)[c0 - 1 := None]"
    and rs: "set (reads s') \<subseteq> set (reads s)" and ws: "set (writes s') \<subseteq> set (writes s)"
    and dist: "distinct (map rq_ctx (reads s' @ writes s'))"
    and other: "\<forall>r \<in> set (reads s' @ writes s'). rq_ctx r \<noteq> c0"
    and bufs: "buffers s' = buffers s"
    and pm: "\<forall>b p. page_map s' b = Some p \<longrightarrow> 0 < p \<and> p \<le> length (buffers s)"
  shows "cache_inv s'"
proof -
  have keep: "ctx_deref s' (rq_ctx r) = ctx_deref s (rq_ctx r)"
    if "r \<in> set (reads s' @ writes s')" for r
    using other that by (simp add: ctx_deref_update [OF live cs])
  have 2: "\<forall>r \<in> set (reads s'). 0 < rq_buf r \<and> rq_buf r \<le> length (buffers s')"
    using rs inv_read_buf [OF inv] bufs by auto
  have 4: "\<forall>r \<in> set (reads s').
      \<exists>c. ctx_deref s' (rq_ctx r) = Some c \<and> block_id c = rq_block_id r"
  proof
    fix r assume r: "r \<in> set (reads s')"
    then have "ctx_deref s' (rq_ctx r) = ctx_deref s (rq_ctx r)"
      using keep by simp
    moreover have "r \<in> set (reads s)"
      using r rs by blast
    ultimately show "\<exists>c. ctx_deref s' (rq_ctx r) = Some c \<and> block_id c = rq_block_id r"
      using inv_read_ctx [OF inv] by simp
  qed
  have 5: "\<forall>r \<in> set (writes s'). ctx_deref s' (rq_ctx r) \<noteq> None"
  proof
    fix r assume r: "r \<in> set (writes s')"
    then have "ctx_deref s' (rq_ctx r) = ctx_deref s (rq_ctx r)"
      using keep by simp
    moreover have "r \<in> set (writes s)"
      using r ws by blast
    ultimately show "ctx_deref s' (rq_ctx r) \<noteq> None"
      using inv_ctx_bound(1) [OF inv, of r] by simp
  qed
  from pm 2 dist 4 5 show ?thesis
    unfolding cache_inv_def bufs by blast
qed

lemma cache_inv_Read_Done:
  assumes "cache_inv s" and "step cfg (Read_Done n) s = Inr s'"
  shows "cache_inv s'"
proof (cases "n < length (reads s)")
  case False
  with assms show ?thesis by simp
next
  case True
  let ?r = "reads s ! n"
  from step_Read_Done [OF assms(2) True] obtain c
    where c: "ctx_deref s (rq_ctx ?r) = Some c"
      and s': "s' = s\<lparr>reads := remove_nth n (reads s),
            contexts := (contexts s)[rq_ctx ?r - 1 := None],
            page_map := (page_map s)(block_id c \<mapsto> rq_buf ?r),
            pin_count := (pin_count s)(block_id c := Suc (pin_count s (block_id c)))\<rparr>"
    by blast
  have buf: "0 < rq_buf ?r \<and> rq_buf ?r \<le> length (buffers s)"
    using inv_read_buf [OF assms(1), of ?r] True by simp
  show ?thesis
  proof (rule cache_inv_completed [OF assms(1), of "rq_ctx ?r"])
    show "ctx_deref s (rq_ctx ?r) \<noteq> None"
      using c by simp
    show "distinct (map rq_ctx (reads s' @ writes s'))"
      using other_ctx_read(1) [OF assms(1) True] by (simp add: s')
    show "\<forall>r \<in> set (reads s' @ writes s'). rq_ctx r \<noteq> rq_ctx ?r"
      using other_ctx_read(2) [OF assms(1) True] by (simp add: s')
    show "\<forall>b p. page_map s' b = Some p \<longrightarrow> 0 < p \<and> p \<le> length (buffers s)"
      using buf inv_page [OF assms(1)] by (auto simp: s')
    show "set (reads s') \<subseteq> set (reads s)"
      using set_remove_nth [of n "reads s"] by (simp add: s')
  qed (simp_all add: s')
qed

lemma cache_inv_Write_Done:
  assumes "cache_inv s" and "step cfg (Write_Done n) s = Inr s'"
  shows "cache_inv s'"
proof (cases "n < length (writes s)")
  case False
  with assms show ?thesis by simp
next
  case True
  let ?r = "writes s ! n"
  from step_Write_Done [OF assms(2) True] obtain c
    where c: "ctx_deref s (rq_ctx ?r) = Some c"
      and s': "s' = s\<lparr>writes := remove_nth n (writes s),
            contexts := (contexts s)[rq_ctx ?r - 1 := None],
            pin_count := (pin_count s)(block_id c := pin_count s (block_id c) - 1)\<rparr>"
    by blast
  show ?thesis
  proof (rule cache_inv_completed [OF assms(1), of "rq_ctx ?r"])
    show "ctx_deref s (rq_ctx ?r) \<noteq> None"
      using c by simp
    show "distinct (map rq_ctx (reads s' @ writes s'))"
      using other_ctx_write(1) [OF assms(1) True] by (simp add: s')
    show "\<forall>r \<in> set (reads s' @ writes s'). rq_ctx r \<noteq> rq_ctx ?r"
      using other_ctx_write(2) [OF assms(1) True] by (simp add: s')
    show "\<forall>b p. page_map s' b = Some p \<longrightarrow> 0 < p \<and> p \<le> length (buffers s)"
      using inv_page [OF assms(1)] by (auto simp: s')
    show "set (writes s') \<subseteq> set (writes s)"
      using set_remove_nth [of n "writes s"] by (simp add: s')
  qed (simp_all add: s')
qed

lemma cache_inv_Flush:
  assumes "cache_inv s" and "step cfg (Flush n) s = Inr s'"
  shows "cache_inv s'"
proof (cases "n < length (dirty s)")
  case False
  with assms show ?thesis by (simp add: writeback_flush_def)
next
  case True
  let ?d = "dirty s ! n"
  let ?c = "\<lparr>user_state = d_state ?d, block_id = d_block_id ?d,
              event_queue = (if ndebug cfg then None else Some (d_tm ?d))\<rparr>"
  let ?w = "\<lparr>rq_tm = d_tm ?d, rq_block_id = d_new_id ?d, rq_buf = d_block ?d,
              rq_ctx = Suc (length (contexts s))\<rparr>"
  have s': "s' = s\<lparr>dirty := remove_nth n (dirty s), contexts := contexts s @ [Some ?c],
                    writes := writes s @ [?w]\<rparr>"
    using assms(2) writeback_flush_nth [OF True, of cfg] by simp
  have cs: "contexts s' = contexts s @ [Some ?c]"
    by (simp add: s')
  have old: "ctx_deref s' (rq_ctx r) = ctx_deref s (rq_ctx r)"
    if "r \<in> set (reads s) \<or> r \<in> set (writes s)" for r
    using inv_ctx_bound(2) [OF assms(1) that] by (simp add: ctx_deref_append [OF cs])
  have new: "ctx_deref s' (Suc (length (contexts s))) = Some ?c"
    by (simp add: ctx_deref_append [OF cs])
  have 1: "\<forall>b p. page_map s' b = Some p \<longrightarrow> 0 < p \<and> p \<le> length (buffers s')"
    by (auto simp: s' dest!: inv_page [OF assms(1)])
  have 2: "\<forall>r \<in> set (reads s'). 0 < rq_buf r \<and> rq_buf r \<le> length (buffers s')"
    by (auto simp: s' dest!: inv_read_buf [OF assms(1)])
  have 3: "distinct (map rq_ctx (reads s' @ writes s'))"
    using inv_distinct [OF assms(1)] fresh_ctx [OF assms(1)] by (simp add: s' image_Un)
  have 4: "\<forall>r \<in> set (reads s').
      \<exists>c. ctx_deref s' (rq_ctx r) = Some c \<and> block_id c = rq_block_id r"
  proof
    fix r assume "r \<in> set (reads s')"
    then have r: "r \<in> set (reads s)"
      by (simp add: s')
    then have "ctx_deref s' (rq_ctx r) = ctx_deref s (rq_ctx r)"
      using old by blast
    with inv_read_ctx [OF assms(1) r]
    show "\<exists>c. ctx_deref s' (rq_ctx r) = Some c \<and> block_id c = rq_block_id r"
      by simp
  qed
  have 5: "\<forall>r \<in> set (writes s'). ctx_deref s' (rq_ctx r) \<noteq> None"
  proof
    fix r assume "r \<in> set (writes s')"
    then have "r \<in> set (writes s) \<or> r = ?w"
      by (auto simp: s')
    then show "ctx_deref s' (rq_ctx r) \<noteq> None"
    proof
      assume r: "r \<in> set (writes s)"
      then have "ctx_deref s' (rq_ctx r) = ctx_deref s (rq_ctx r)"
        using old by blast
      with inv_ctx_bound(1) [OF assms(1), of r] r show ?thesis
        by simp
    next
      assume "r = ?w"
      with new show ?thesis by simp
    qed
  qed
  from 1 2 3 4 5 show ?thesis
    unfolding cache_inv_def by blast
qed

lemma cache_inv_Run_Thread:
  assumes "cache_inv s" and "step cfg (Run_Thread q) s = Inr s'"
  shows "cache_inv s'"
  using assms(2) by (intro cache_inv_same_requests [OF assms(1)]) (auto dest!: inv_page [OF assms(1)])

lemma cache_inv_step:
  assumes "cache_inv s" and "step cfg ev s = Inr s'"
  shows "cache_inv s'"
proof (cases ev)
  case (Allocate tm)
  with assms show ?thesis by (simp only: cache_inv_Allocate)
next
  case (Acquire tm bid state)
  with assms show ?thesis by (simp only: cache_inv_Acquire)
next
  case (Release tm bid block is_dirty state)
  with assms show ?thesis by (simp only: cache_inv_Release)
next
  case (Flush n)
  with assms show ?thesis by (simp only: cache_inv_Flush)
next
  case (Read_Done n)
  with assms show ?thesis by (simp only: cache_inv_Read_Done)
next
  case (Write_Done n)
  with assms show ?thesis by (simp only: cache_inv_Write_Done)
next
  case (Run_Thread q)
  with assms show ?thesis by (simp only: cache_inv_Run_Thread)
qed

lemma cache_inv_run:
  assumes "cache_inv s" and "run cfg evs s = Inr s'"
  shows "cache_inv s'"
  using assms
proof (induction evs arbitrary: s)
  case Nil
  then show ?case by simp
next
  case (Cons ev evs)
  from Cons.prems(2) obtain s1 where s1: "step cfg ev s = Inr s1" and rest: "run cfg evs s1 = Inr s'"
    by (auto split: sum.splits)
  from cache_inv_step [OF Cons.prems(1) s1] rest show ?case
    by (rule Cons.IH)
qed

text \<open>Every state that a new cache reaches is well-formed.\<close>

lemma cache_inv_reachable:
  "run cfg evs (mirrored_cache_t cpu bsize msize) = Inr s \<Longrightarrow> cache_inv s"
  using cache_inv_initial by (rule cache_inv_run)

subsection \<open>Every step changes a pin count by the references taken and the writes left pending\<close>

lemma pending_writes_same:
  assumes "contexts s' = contexts s" and "writes s' = writes s" and "dirty s' = dirty s"
  shows "pending_writes s' b = pending_writes s b"
proof -
  have "write_names s' b = write_names s b"
    using assms(1) by (intro ext) (simp add: write_names_def ctx_deref_def)
  with assms show ?thesis
    by (simp add: pending_writes_def)
qed

lemma write_names_kept:
  assumes "\<forall>r \<in> set ws. ctx_deref s' (rq_ctx r) = ctx_deref s (rq_ctx r)"
  shows "length (filter (write_names s' b) ws) = length (filter (write_names s b) ws)"
  using filter_write_names_cong [OF assms, of b] by simp

lemma writes_kept_on_append:
  assumes "cache_inv s" and "contexts s' = contexts s @ [x]"
  shows "\<forall>r \<in> set (writes s). ctx_deref s' (rq_ctx r) = ctx_deref s (rq_ctx r)"
proof
  fix r assume "r \<in> set (writes s)"
  then have "rq_ctx r \<noteq> Suc (length (contexts s))"
    using inv_ctx_bound(2) [OF assms(1), of r] by simp
  then show "ctx_deref s' (rq_ctx r) = ctx_deref s (rq_ctx r)"
    by (simp add: ctx_deref_append [OF assms(2)])
qed

lemma balance_Allocate:
  assumes "step cfg (Allocate tm) s = Inr s'"
  shows "int (pin_count s' b) - int (pending_writes s' b) =
         int (pin_count s b) - int (pending_writes s b) + ref_delta (Allocate tm) s b"
proof -
  note s' = step_Allocate [OF assms]
  have "pending_writes s' b = pending_writes s b"
    by (rule pending_writes_same) (simp_all add: s')
  moreover have "int (pin_count s' b) = int (pin_count s b) + ref_delta (Allocate tm) s b"
    by (simp add: s' gen_block_id_def)
  ultimately show ?thesis by simp
qed

lemma balance_Acquire:
  assumes "cache_inv s" and "step cfg (Acquire tm bid state) s = Inr s'"
  shows "int (pin_count s' b) - int (pending_writes s' b) =
         int (pin_count s b) - int (pending_writes s b) + ref_delta (Acquire tm bid state) s b"
proof -
  from step_Acquire [OF assms(2)] show ?thesis
  proof (elim disjE conjE)
    assume hit: "page_map_find bid s \<noteq> NULL"
      and s': "s' = s\<lparr>pin_count := (pin_count s)(bid := Suc (pin_count s bid))\<rparr>"
    have "pending_writes s' b = pending_writes s b"
      by (rule pending_writes_same) (simp_all add: s')
    moreover have "int (pin_count s' b) = int (pin_count s b) + ref_delta (Acquire tm bid state) s b"
      using hit by (simp add: s')
    ultimately show ?thesis by simp
  next
    assume miss: "page_map_find bid s = NULL"
      and s': "s' = s\<lparr>reads := reads s @ [\<lparr>rq_tm = tm, rq_block_id = bid,
                      rq_buf = Suc (length (buffers s)), rq_ctx = Suc (length (contexts s))\<rparr>],
                 buffers := buffers s @ [replicate (block_size s) (malloc_fill cfg)],
                 contexts := contexts s @ [Some \<lparr>user_state = state, block_id = bid,
                      event_queue = (if ndebug cfg then None else Some tm)\<rparr>]\<rparr>"
    have cs: "contexts s' = contexts s @ [Some \<lparr>user_state = state, block_id = bid,
                      event_queue = (if ndebug cfg then None else Some tm)\<rparr>]"
      by (simp add: s')
    have "length (filter (write_names s' b) (writes s)) =
          length (filter (write_names s b) (writes s))"
      by (rule write_names_kept) (rule writes_kept_on_append [OF assms(1) cs])
    then have "pending_writes s' b = pending_writes s b"
      by (simp add: pending_writes_def s')
    moreover have "int (pin_count s' b) = int (pin_count s b) + ref_delta (Acquire tm bid state) s b"
      using miss by (simp add: s')
    ultimately show ?thesis by simp
  qed
qed

lemma balance_Release:
  assumes "step cfg (Release tm bid block is_dirty state) s = Inr s'"
  shows "int (pin_count s' b) - int (pending_writes s' b) =
         int (pin_count s b) - int (pending_writes s b) +
         ref_delta (Release tm bid block is_dirty state) s b"
proof -
  from step_Release [OF assms] show ?thesis
  proof (elim disjE conjE exE)
    assume p: "0 < pin_count s bid"
      and s': "s' = s\<lparr>pin_count := (pin_count s)(bid := pin_count s bid - 1)\<rparr>"
    have "pending_writes s' b = pending_writes s b"
      by (rule pending_writes_same) (simp_all add: s')
    moreover have "int (pin_count s' b) =
        int (pin_count s b) + ref_delta (Release tm bid block is_dirty state) s b"
      using p by (simp add: s')
    ultimately show ?thesis by simp
  next
    fix n new_id
    assume s': "s' = s\<lparr>next_block_id := n,
            dirty := dirty s @ [\<lparr>d_tm = tm, d_block_id = bid, d_block = block, d_state = state,
                  d_new_id = new_id\<rparr>]\<rparr>"
    have "write_names s' b = write_names s b"
      by (intro ext) (simp add: write_names_def ctx_deref_def s')
    then have "int (pending_writes s' b) = int (pending_writes s b) + (if b = bid then 1 else 0)"
      by (simp add: pending_writes_def s')
    moreover have "pin_count s' b = pin_count s b"
      by (simp add: s')
    ultimately show ?thesis by simp
  qed
qed

lemma balance_Flush:
  assumes "cache_inv s" and "step cfg (Flush n) s = Inr s'"
  shows "int (pin_count s' b) - int (pending_writes s' b) =
         int (pin_count s b) - int (pending_writes s b) + ref_delta (Flush n) s b"
proof (cases "n < length (dirty s)")
  case False
  with assms show ?thesis by (simp add: writeback_flush_def)
next
  case True
  let ?d = "dirty s ! n"
  let ?c = "\<lparr>user_state = d_state ?d, block_id = d_block_id ?d,
              event_queue = (if ndebug cfg then None else Some (d_tm ?d))\<rparr>"
  let ?w = "\<lparr>rq_tm = d_tm ?d, rq_block_id = d_new_id ?d, rq_buf = d_block ?d,
              rq_ctx = Suc (length (contexts s))\<rparr>"
  have s': "s' = s\<lparr>dirty := remove_nth n (dirty s), contexts := contexts s @ [Some ?c],
                    writes := writes s @ [?w]\<rparr>"
    using assms(2) writeback_flush_nth [OF True, of cfg] by simp
  have cs: "contexts s' = contexts s @ [Some ?c]"
    by (simp add: s')
  have old: "length (filter (write_names s' b) (writes s)) =
             length (filter (write_names s b) (writes s))"
    by (rule write_names_kept) (rule writes_kept_on_append [OF assms(1) cs])
  have new: "write_names s' b ?w \<longleftrightarrow> d_block_id ?d = b"
    by (simp add: write_names_def ctx_deref_append [OF cs])
  have d: "length (filter (\<lambda>d. d_block_id d = b) (dirty s)) =
           length (filter (\<lambda>d. d_block_id d = b) (remove_nth n (dirty s))) +
           (if d_block_id ?d = b then 1 else 0)"
    by (rule filter_remove_nth [OF True])
  have "pending_writes s' b = pending_writes s b"
    using old new d by (simp add: pending_writes_def s')
  moreover have "pin_count s' b = pin_count s b"
    by (simp add: s')
  ultimately show ?thesis by simp
qed

lemma balance_Read_Done:
  assumes "cache_inv s" and "step cfg (Read_Done n) s = Inr s'"
  shows "int (pin_count s' b) - int (pending_writes s' b) =
         int (pin_count s b) - int (pending_writes s b) + ref_delta (Read_Done n) s b"
proof (cases "n < length (reads s)")
  case False
  with assms show ?thesis by simp
next
  case True
  let ?r = "reads s ! n"
  from step_Read_Done [OF assms(2) True] obtain c
    where c: "ctx_deref s (rq_ctx ?r) = Some c"
      and s': "s' = s\<lparr>reads := remove_nth n (reads s),
            contexts := (contexts s)[rq_ctx ?r - 1 := None],
            page_map := (page_map s)(block_id c \<mapsto> rq_buf ?r),
            pin_count := (pin_count s)(block_id c := Suc (pin_count s (block_id c)))\<rparr>"
    by blast
  have live: "ctx_deref s (rq_ctx ?r) \<noteq> None"
    using c by simp
  have cs: "contexts s' = (contexts s)[rq_ctx ?r - 1 := None]"
    by (simp add: s')
  have names: "block_id c = rq_block_id ?r"
    using inv_read_ctx [OF assms(1), of ?r] True c by simp
  have "\<forall>w \<in> set (writes s). ctx_deref s' (rq_ctx w) = ctx_deref s (rq_ctx w)"
    using other_ctx_read(2) [OF assms(1) True] by (simp add: ctx_deref_update [OF live cs])
  then have "length (filter (write_names s' b) (writes s)) =
             length (filter (write_names s b) (writes s))"
    by (rule write_names_kept)
  then have "pending_writes s' b = pending_writes s b"
    by (simp add: pending_writes_def s')
  moreover have "int (pin_count s' b) = int (pin_count s b) + ref_delta (Read_Done n) s b"
    using True names by (simp add: s')
  ultimately show ?thesis by simp
qed

lemma balance_Write_Done:
  assumes "cache_inv s" and "step cfg (Write_Done n) s = Inr s'"
  shows "int (pin_count s' b) - int (pending_writes s' b) =
         int (pin_count s b) - int (pending_writes s b) + ref_delta (Write_Done n) s b"
proof (cases "n < length (writes s)")
  case False
  with assms show ?thesis by simp
next
  case True
  let ?r = "writes s ! n"
  from step_Write_Done [OF assms(2) True] obtain c
    where c: "ctx_deref s (rq_ctx ?r) = Some c" and p: "0 < pin_count s (block_id c)"
      and s': "s' = s\<lparr>writes := remove_nth n (writes s),
            contexts := (contexts s)[rq_ctx ?r - 1 := None],
            pin_count := (pin_count s)(block_id c := pin_count s (block_id c) - 1)\<rparr>"
    by blast
  have live: "ctx_deref s (rq_ctx ?r) \<noteq> None"
    using c by simp
  have cs: "contexts s' = (contexts s)[rq_ctx ?r - 1 := None]"
    by (simp add: s')
  have "\<forall>w \<in> set (remove_nth n (writes s)). ctx_deref s' (rq_ctx w) = ctx_deref s (rq_ctx w)"
    using other_ctx_write(2) [OF assms(1) True] by (simp add: ctx_deref_update [OF live cs])
  then have rest: "length (filter (write_names s' b) (remove_nth n (writes s))) =
             length (filter (write_names s b) (remove_nth n (writes s)))"
    by (rule write_names_kept)
  have this_one: "write_names s b ?r \<longleftrightarrow> block_id c = b"
    using c by (simp add: write_names_def)
  have "length (filter (write_names s b) (writes s)) =
        length (filter (write_names s b) (remove_nth n (writes s))) +
        (if write_names s b ?r then 1 else 0)"
    by (rule filter_remove_nth [OF True])
  with rest this_one
  have "int (pending_writes s b) = int (pending_writes s' b) + (if block_id c = b then 1 else 0)"
    by (simp add: pending_writes_def s')
  moreover have "int (pin_count s b) = int (pin_count s' b) + (if block_id c = b then 1 else 0)"
    using p by (auto simp: s')
  ultimately show ?thesis by simp
qed

lemma balance_Run_Thread:
  assumes "step cfg (Run_Thread q) s = Inr s'"
  shows "int (pin_count s' b) - int (pending_writes s' b) =
         int (pin_count s b) - int (pending_writes s b) + ref_delta (Run_Thread q) s b"
proof -
  have s': "s' = s\<lparr>cpu_event_queue := q\<rparr>"
    using assms by simp
  have "pending_writes s' b = pending_writes s b"
    by (rule pending_writes_same) (simp_all add: s')
  then show ?thesis
    by (simp add: s')
qed

lemma balance_step:
  assumes "cache_inv s" and "step cfg ev s = Inr s'"
  shows "int (pin_count s' b) - int (pending_writes s' b) =
         int (pin_count s b) - int (pending_writes s b) + ref_delta ev s b"
proof (cases ev)
  case (Allocate tm)
  with assms show ?thesis by (simp only: balance_Allocate)
next
  case (Acquire tm bid state)
  with assms show ?thesis by (simp only: balance_Acquire)
next
  case (Release tm bid block is_dirty state)
  with assms show ?thesis by (simp only: balance_Release)
next
  case (Flush n)
  with assms show ?thesis by (simp only: balance_Flush)
next
  case (Read_Done n)
  with assms show ?thesis by (simp only: balance_Read_Done)
next
  case (Write_Done n)
  with assms show ?thesis by (simp only: balance_Write_Done)
next
  case (Run_Thread q)
  with assms show ?thesis by (simp only: balance_Run_Thread)
qed

lemma balance_run:
  assumes "cache_inv s" and "run cfg evs s = Inr s'"
  shows "int (pin_count s' b) - int (pending_writes s' b) =
         int (pin_count s b) - int (pending_writes s b) + refs_taken cfg evs s b"
  using assms
proof (induction evs arbitrary: s)
  case Nil
  then show ?case by simp
next
  case (Cons ev evs)
  from Cons.prems(2) obtain s1 where s1: "step cfg ev s = Inr s1" and rest: "run cfg evs s1 = Inr s'"
    by (auto split: sum.splits)
  have "int (pin_count s' b) - int (pending_writes s' b) =
        int (pin_count s1 b) - int (pending_writes s1 b) + refs_taken cfg evs s1 b"
    using cache_inv_step [OF Cons.prems(1) s1] rest by (rule Cons.IH)
  also have "int (pin_count s1 b) - int (pending_writes s1 b) =
        int (pin_count s b) - int (pending_writes s b) + ref_delta ev s b"
    using Cons.prems(1) s1 by (rule balance_step)
  finally show ?case
    using s1 by simp
qed

lemma dirty_then_flush:
  assumes ok: "assert_passes cfg (tm = cpu_event_queue s \<and> tm \<noteq> NULL)"
    and res: "page_map_find bid s \<noteq> NULL" and z: "pin_count s bid = 0"
  shows "\<exists>block new_id s1 s2 s3 s4.
      acquire cfg tm bid state s = Inr (block, s1) \<and> pin_count s1 bid = 1 \<and>
      release cfg tm bid block True state s1 = Inr (new_id, s2) \<and> pin_count s2 bid = 1 \<and>
      step cfg (Flush (length (dirty s))) s2 = Inr s3 \<and> pin_count s3 bid = 1 \<and>
      step cfg (Write_Done (length (writes s))) s3 = Inr s4 \<and> pin_count s4 bid = 0 \<and>
      reads s4 = reads s \<and> writes s4 = writes s \<and> dirty s4 = dirty s"
proof -
  let ?blk = "page_map_find bid s"
  let ?s1 = "s\<lparr>pin_count := (pin_count s)(bid := Suc (pin_count s bid))\<rparr>"
  let ?nid = "if copy_on_write cfg then next_block_id ?s1 else bid"
  let ?d = "\<lparr>d_tm = tm, d_block_id = bid, d_block = ?blk, d_state = state, d_new_id = ?nid\<rparr>"
  let ?s1' = "?s1\<lparr>next_block_id :=
      (if copy_on_write cfg then Suc (next_block_id ?s1) else next_block_id ?s1)\<rparr>"
  let ?s2 = "?s1'\<lparr>dirty := dirty s @ [?d]\<rparr>"
  let ?c = "\<lparr>user_state = state, block_id = bid,
              event_queue = (if ndebug cfg then None else Some tm)\<rparr>"
  let ?s3 = "?s1'\<lparr>dirty := dirty s, contexts := contexts s @ [Some ?c],
                 writes := writes s @ [\<lparr>rq_tm = tm, rq_block_id = ?nid, rq_buf = ?blk,
                                        rq_ctx = Suc (length (contexts s))\<rparr>]\<rparr>"
  let ?s3' = "?s3\<lparr>writes := writes s\<rparr>"
  let ?s4 = "?s3'\<lparr>contexts := (contexts ?s3')[Suc (length (contexts s)) - 1 := None],
                 pin_count := (pin_count ?s3')(block_id ?c := pin_count ?s3' (block_id ?c) - 1)\<rparr>"
  have ok0: "assert_passes cfg (tm = cpu_event_queue s)"
    and ok1: "assert_passes cfg (tm = cpu_event_queue ?s1)"
    and nn: "assert_passes cfg (cpu_event_queue ?s3' \<noteq> NULL)"
    using ok by (auto simp: assert_passes_def)
  have acq: "acquire cfg tm bid state s = Inr (?blk, ?s1)"
    using ok0 res by (rule acquire_hit)
  have rel: "release cfg tm bid ?blk True state ?s1 = Inr (?nid, ?s2)"
    using release_dirty [OF ok1, of bid ?blk state] by simp
  have fl: "step cfg (Flush (length (dirty s))) ?s2 = Inr ?s3"
    using writeback_flush_last [where cfg = cfg and ds = "dirty s" and s = ?s1' and d = ?d]
    by simp
  have deref: "ctx_deref ?s3' (Suc (length (contexts s))) = Some ?c"
    by (simp add: ctx_deref_def)
  have pinned: "0 < pin_count ?s3' (block_id ?c)"
    by simp
  have wd: "step cfg (Write_Done (length (writes s))) ?s3 = Inr ?s4"
    using aio_complete_write [OF deref nn pinned, of ?blk]
    by (simp add: remove_nth_def)
  have pins: "pin_count ?s1 bid = 1" "pin_count ?s2 bid = 1" "pin_count ?s3 bid = 1"
    "pin_count ?s4 bid = 0"
    using z by simp_all
  have io: "reads ?s4 = reads s" "writes ?s4 = writes s" "dirty ?s4 = dirty s"
    by simp_all
  from acq rel fl wd pins io show ?thesis
    by blast
qed


section \<open>Properties of the transaction protocol\<close>

text \<open>
  C1. When the page map has no buffer for the block id, one call of \<^verbatim>\<open>acquire\<close> issues
  exactly one asynchronous read: it allocates a buffer that was not allocated before and a
  context that was not live before, the context holds the caller state, the block id and (in
  a debug build, where the member exists) the event queue of the running thread, and the one
  request added to the reads in flight carries that buffer and that context. When the
  serializer then delivers the completion of that read, \<^verbatim>\<open>aio_complete\<close> with
  \<open>written = false\<close> registers the buffer in the page map under the block id and raises
  its pin count by exactly one; the context is gone, and the buffer is registered under no
  other block id. The calls are made on the thread that owns the transaction, in a
  well-formed state (every state that a new cache reaches is one).
\<close>

theorem acquire_miss_then_fill:
  assumes "assert_passes cfg (tm = cpu_event_queue s \<and> tm \<noteq> NULL)"
    and "page_map_find bid s = NULL" and "cache_inv s"
  shows "\<exists>buf ctx s1 s2.
     acquire cfg tm bid state s = Inr (NULL, s1) \<and>
     reads s1 = reads s @ [\<lparr>rq_tm = tm, rq_block_id = bid, rq_buf = buf, rq_ctx = ctx\<rparr>] \<and>
     writes s1 = writes s \<and>
     buf \<noteq> NULL \<and> buffer_at s buf = None \<and>
     buffer_at s1 buf = Some (replicate (block_size s) (malloc_fill cfg)) \<and>
     ctx \<noteq> NULL \<and> ctx_deref s ctx = None \<and>
     ctx_deref s1 ctx = Some \<lparr>user_state = state, block_id = bid,
        event_queue = (if ndebug cfg then None else Some (get_cpu_context_event_queue s))\<rparr> \<and>
     step cfg (Read_Done (length (reads s))) s1 = Inr s2 \<and>
     reads s2 = reads s \<and> writes s2 = writes s \<and> buffers s2 = buffers s1 \<and>
     ctx_deref s2 ctx = None \<and>
     page_map s2 = (page_map s)(bid \<mapsto> buf) \<and>
     pin_count s2 = (pin_count s)(bid := Suc (pin_count s bid)) \<and>
     (\<forall>b. page_map s2 b = Some buf \<longrightarrow> b = bid)"
proof -
  have ok: "assert_passes cfg (tm = cpu_event_queue s)"
    and nn: "assert_passes cfg (cpu_event_queue s \<noteq> NULL)"
    using assms(1) by (auto simp: assert_passes_def)
  have fresh: "page_map s b \<noteq> Some (Suc (length (buffers s)))" for b
    using assms(3) by (fastforce simp: cache_inv_def)
  let ?c = "\<lparr>user_state = state, block_id = bid,
        event_queue = (if ndebug cfg then None else Some tm)\<rparr>"
  let ?s1 = "s\<lparr>reads := reads s @ [\<lparr>rq_tm = tm, rq_block_id = bid,
                      rq_buf = Suc (length (buffers s)), rq_ctx = Suc (length (contexts s))\<rparr>],
                 buffers := buffers s @ [replicate (block_size s) (malloc_fill cfg)],
                 contexts := contexts s @ [Some ?c]\<rparr>"
  have acq: "acquire cfg tm bid state s = Inr (NULL, ?s1)"
    using ok assms(2) by (rule acquire_miss)
  have deref: "ctx_deref (?s1\<lparr>reads := reads s\<rparr>) (Suc (length (contexts s))) = Some ?c"
    by (simp add: ctx_deref_def)
  let ?s2 = "?s1\<lparr>reads := reads s, contexts := contexts s @ [None],
             page_map := (page_map s)(bid \<mapsto> Suc (length (buffers s))),
             pin_count := (pin_count s)(bid := Suc (pin_count s bid))\<rparr>"
  have fill: "step cfg (Read_Done (length (reads s))) ?s1 = Inr ?s2"
    using aio_complete_read [OF deref, of cfg "Suc (length (buffers s))"] nn
    by (simp add: remove_nth_def)
  show ?thesis
    apply (rule exI [of _ "Suc (length (buffers s))"])
    apply (rule exI [of _ "Suc (length (contexts s))"])
    apply (rule exI [of _ ?s1])
    apply (rule exI [of _ ?s2])
    using acq fill fresh ok
    by (auto simp: ctx_deref_def buffer_at_def NULL_def get_cpu_context_event_queue_def
        assert_passes_def)
qed

theorem acquire_miss_then_fill_witness:
  "assert_passes sample_cfg
      (1 = cpu_event_queue (mirrored_cache_t 1 4 8) \<and> 1 \<noteq> NULL) \<and>
   page_map_find 7 (mirrored_cache_t 1 4 8) = NULL \<and> cache_inv (mirrored_cache_t 1 4 8) \<and>
   (\<exists>s1 s2. acquire sample_cfg 1 7 9 (mirrored_cache_t 1 4 8) =
                Inr (NULL, s1) \<and>
       reads s1 = [\<lparr>rq_tm = 1, rq_block_id = 7, rq_buf = 1, rq_ctx = 1\<rparr>] \<and>
       ctx_deref s1 1 = Some \<lparr>user_state = 9, block_id = 7, event_queue = Some 1\<rparr> \<and>
       step sample_cfg (Read_Done 0) s1 = Inr s2 \<and>
       reads s2 = [] \<and> page_map s2 = [7 \<mapsto> 1] \<and> pin_count s2 7 = 1)"
proof -
  have h1: "assert_passes sample_cfg
      (1 = cpu_event_queue (mirrored_cache_t 1 4 8) \<and> 1 \<noteq> NULL)"
    by (simp add: assert_passes_def mirrored_cache_t_def sample_cfg_def NULL_def)
  have h2: "page_map_find 7 (mirrored_cache_t 1 4 8) = NULL"
    by (simp add: page_map_find_def mirrored_cache_t_def)
  have h3: "cache_inv (mirrored_cache_t 1 4 8)"
    by (simp add: cache_inv_def mirrored_cache_t_def)
  from acquire_miss_then_fill [OF h1 h2 h3, of 9] h1 h2 h3 show ?thesis
    by (auto simp: run_defs sample_cfg_def)
qed

text \<open>
  C2. \<^verbatim>\<open>release\<close> with \<open>dirty = false\<close> on a pinned block lowers its pin count by one and
  returns the block id it was given. With \<open>dirty = true\<close> it hands the block to
  \<^verbatim>\<open>mark_dirty\<close> and returns what \<^verbatim>\<open>mark_dirty\<close> returns, which under a
  copy-on-write serializer is a newly generated block id; no pin count changes, so the block
  remains pinned.
\<close>

theorem release_clean_or_dirty:
  assumes "assert_passes cfg (tm = cpu_event_queue s)"
  shows "(0 < pin_count s bid \<longrightarrow>
            release cfg tm bid block False state s =
              Inr (bid, s\<lparr>pin_count := (pin_count s)(bid := pin_count s bid - 1)\<rparr>)) \<and>
         (\<exists>new_id s'. release cfg tm bid block True state s = Inr (new_id, s') \<and>
            (new_id, s') = writeback_mark_dirty cfg tm bid block state s \<and>
            new_id = (if copy_on_write cfg then fst (gen_block_id s) else bid) \<and>
            dirty s' = dirty s @ [\<lparr>d_tm = tm, d_block_id = bid, d_block = block,
                                   d_state = state, d_new_id = new_id\<rparr>] \<and>
            pin_count s' = pin_count s \<and> page_map s' = page_map s)"
proof (rule conjI)
  show "0 < pin_count s bid \<longrightarrow>
            release cfg tm bid block False state s =
              Inr (bid, s\<lparr>pin_count := (pin_count s)(bid := pin_count s bid - 1)\<rparr>)"
    using assms by (blast intro: release_clean)
next
  show "\<exists>new_id s'. release cfg tm bid block True state s = Inr (new_id, s') \<and>
            (new_id, s') = writeback_mark_dirty cfg tm bid block state s \<and>
            new_id = (if copy_on_write cfg then fst (gen_block_id s) else bid) \<and>
            dirty s' = dirty s @ [\<lparr>d_tm = tm, d_block_id = bid, d_block = block,
                                   d_state = state, d_new_id = new_id\<rparr>] \<and>
            pin_count s' = pin_count s \<and> page_map s' = page_map s"
    using assms
    by (simp add: release_def writeback_mark_dirty_def gen_block_id_def
        get_cpu_context_event_queue_def)
qed

theorem release_clean_or_dirty_witness:
  "assert_passes sample_cfg (1 = cpu_event_queue sample_state) \<and>
   0 < pin_count sample_state 7 \<and>
   release sample_cfg 1 7 1 False 9 sample_state =
     Inr (7, sample_state\<lparr>pin_count := (\<lambda>_. 0)(7 := 1, 7 := 0)\<rparr>) \<and>
   (\<exists>s'. release sample_cfg 1 7 1 True 9 sample_state = Inr (8, s') \<and> pin_count s' 7 = 1)"
proof -
  have h1: "assert_passes sample_cfg (1 = cpu_event_queue sample_state)"
    by (simp add: assert_passes_def sample_defs)
  have h2: "0 < pin_count sample_state 7"
    by (simp add: sample_defs)
  from release_clean_or_dirty [OF h1, of 7 1 9] h1 h2 show ?thesis
    by (auto simp: gen_block_id_def sample_defs)
qed

text \<open>
  C3. First, the dirty-then-flush scenario: a resident block that nobody has pinned is
  acquired and released with \<open>dirty = true\<close>; its pin count is one after the acquire, after
  the release and after the flush has issued the write, and drops to zero when the
  completion of that write is delivered; the requests in flight and the dirty blocks are
  then what they were at the start. Second, for every sequence of events that runs without
  a contract violation from a well-formed state, the pin count of every block id has changed
  by exactly the references taken minus those given back, plus the change in the writes
  pending for it. So, starting where the pin count equals the pending writes (as in a new
  cache), once every reference is released and no write is pending the pin count is zero;
  and as long as a write is pending the block stays pinned.
\<close>

theorem pin_balance:
  "(assert_passes cfg (tm = cpu_event_queue s \<and> tm \<noteq> NULL) \<and>
    page_map_find bid s \<noteq> NULL \<and> pin_count s bid = 0 \<longrightarrow>
     (\<exists>block new_id s1 s2 s3 s4.
        acquire cfg tm bid state s = Inr (block, s1) \<and> pin_count s1 bid = 1 \<and>
        release cfg tm bid block True state s1 = Inr (new_id, s2) \<and> pin_count s2 bid = 1 \<and>
        step cfg (Flush (length (dirty s))) s2 = Inr s3 \<and> pin_count s3 bid = 1 \<and>
        step cfg (Write_Done (length (writes s))) s3 = Inr s4 \<and> pin_count s4 bid = 0 \<and>
        reads s4 = reads s \<and> writes s4 = writes s \<and> dirty s4 = dirty s)) \<and>
   (cache_inv s \<and> run cfg evs s = Inr s' \<longrightarrow>
      int (pin_count s' b) =
        int (pin_count s b) + refs_taken cfg evs s b +
        (int (pending_writes s' b) - int (pending_writes s b))) \<and>
   (cache_inv s \<and> pin_count s b = pending_writes s b \<and> run cfg evs s = Inr s' \<and>
    refs_taken cfg evs s b = 0 \<and> pending_writes s' b = 0 \<longrightarrow> pin_count s' b = 0) \<and>
   (cache_inv s \<and> pin_count s b = pending_writes s b \<and> run cfg evs s = Inr s' \<and>
    0 \<le> refs_taken cfg evs s b \<and> 0 < pending_writes s' b \<longrightarrow> 0 < pin_count s' b)"
proof (intro conjI impI)
  assume "assert_passes cfg (tm = cpu_event_queue s \<and> tm \<noteq> NULL) \<and>
    page_map_find bid s \<noteq> NULL \<and> pin_count s bid = 0"
  then show "\<exists>block new_id s1 s2 s3 s4.
        acquire cfg tm bid state s = Inr (block, s1) \<and> pin_count s1 bid = 1 \<and>
        release cfg tm bid block True state s1 = Inr (new_id, s2) \<and> pin_count s2 bid = 1 \<and>
        step cfg (Flush (length (dirty s))) s2 = Inr s3 \<and> pin_count s3 bid = 1 \<and>
        step cfg (Write_Done (length (writes s))) s3 = Inr s4 \<and> pin_count s4 bid = 0 \<and>
        reads s4 = reads s \<and> writes s4 = writes s \<and> dirty s4 = dirty s"
    using dirty_then_flush [of cfg tm s bid state] by blast
next
  assume "cache_inv s \<and> run cfg evs s = Inr s'"
  then show "int (pin_count s' b) =
        int (pin_count s b) + refs_taken cfg evs s b +
        (int (pending_writes s' b) - int (pending_writes s b))"
    using balance_run [of s cfg evs s' b] by simp
next
  assume "cache_inv s \<and> pin_count s b = pending_writes s b \<and> run cfg evs s = Inr s' \<and>
    refs_taken cfg evs s b = 0 \<and> pending_writes s' b = 0"
  then show "pin_count s' b = 0"
    using balance_run [of s cfg evs s' b] by simp
next
  assume "cache_inv s \<and> pin_count s b = pending_writes s b \<and> run cfg evs s = Inr s' \<and>
    0 \<le> refs_taken cfg evs s b \<and> 0 < pending_writes s' b"
  then show "0 < pin_count s' b"
    using balance_run [of s cfg evs s' b] by simp
qed

theorem pin_balance_witness:
  "(assert_passes sample_cfg (1 = cpu_event_queue sample_idle \<and> 1 \<noteq> NULL) \<and>
    page_map_find 7 sample_idle \<noteq> NULL \<and> pin_count sample_idle 7 = 0) \<and>
   (cache_inv sample_idle \<and> pin_count sample_idle 7 = pending_writes sample_idle 7) \<and>
   (\<exists>s'. run sample_cfg sample_events sample_idle = Inr s' \<and>
      refs_taken sample_cfg sample_events sample_idle 7 = 0 \<and>
      pending_writes s' 7 = 0 \<and> pin_count s' 7 = 0) \<and>
   (\<exists>s'. run sample_cfg (butlast sample_events) sample_idle = Inr s' \<and>
      0 \<le> refs_taken sample_cfg (butlast sample_events) sample_idle 7 \<and>
      0 < pending_writes s' 7 \<and> 0 < pin_count s' 7)"
proof -
  have a: "assert_passes sample_cfg (1 = cpu_event_queue sample_idle \<and> 1 \<noteq> NULL) \<and>
    page_map_find 7 sample_idle \<noteq> NULL \<and> pin_count sample_idle 7 = 0"
    by (simp add: sample_defs assert_passes_def page_map_find_def NULL_def)
  have i: "cache_inv sample_idle"
    by (simp add: sample_defs cache_inv_def)
  have p: "pin_count sample_idle 7 = pending_writes sample_idle 7"
    by (simp add: sample_defs pending_writes_def)
  obtain s1 where r1: "run sample_cfg sample_events sample_idle = Inr s1"
    and w1: "pending_writes s1 7 = 0"
    by (simp add: sample_defs run_defs pending_writes_def write_names_def)
  have t1: "refs_taken sample_cfg sample_events sample_idle 7 = 0"
    by (simp add: sample_defs run_defs)
  obtain s2 where r2: "run sample_cfg (butlast sample_events) sample_idle = Inr s2"
    and w2: "0 < pending_writes s2 7"
    by (simp add: sample_defs run_defs pending_writes_def write_names_def)
  have t2: "0 \<le> refs_taken sample_cfg (butlast sample_events) sample_idle 7"
    by (simp add: sample_defs run_defs)
  have z1: "pin_count s1 7 = 0"
    using pin_balance [where cfg = sample_cfg and s = sample_idle and evs = sample_events
        and s' = s1 and b = 7 and tm = 1 and bid = 7 and state = 9] i p r1 t1 w1
    by blast
  have z2: "0 < pin_count s2 7"
    using pin_balance [where cfg = sample_cfg and s = sample_idle
        and evs = "butlast sample_events" and s' = s2 and b = 7 and tm = 1 and bid = 7
        and state = 9] i p r2 t2 w2
    by blast
  from a i p r1 t1 w1 z1 r2 t2 w2 z2 show ?thesis
    by blast
qed

text \<open>
  C4. \<^verbatim>\<open>allocate\<close> returns the buffer that the allocator's \<^verbatim>\<open>malloc\<close> hands out for
  the serializer's block size, holding whatever the allocator left in it (\<^verbatim>\<open>allocate\<close>
  does not initialize it), together with the block id that \<^verbatim>\<open>gen_block_id\<close> has just
  generated (and will not generate again). The buffer was not allocated before; after the
  call it is registered in the page map under the new block id and under no other, and the
  new block id is pinned. The call is made on the thread that owns the transaction, in a
  well-formed state.
\<close>

theorem allocate_resident_pinned:
  assumes "assert_passes cfg (tm = cpu_event_queue s)" and "cache_inv s"
  shows "\<exists>block bid s'. allocate cfg tm s = Inr ((block, bid), s') \<and>
           bid = fst (gen_block_id s) \<and> bid < fst (gen_block_id s') \<and>
           block \<noteq> NULL \<and> buffer_at s block = None \<and>
           buffer_at s' block = Some (replicate (block_size s) (malloc_fill cfg)) \<and>
           block_size s' = block_size s \<and>
           page_map s' = (page_map s)(bid \<mapsto> block) \<and>
           page_map_find bid s' = block \<and>
           pin_count s' = (pin_count s)(bid := Suc (pin_count s bid)) \<and>
           0 < pin_count s' bid \<and>
           (\<forall>b. page_map s' b = Some block \<longrightarrow> b = bid)"
proof -
  have fresh: "page_map s b \<noteq> Some (Suc (length (buffers s)))" for b
    using assms(2) by (fastforce simp: cache_inv_def)
  show ?thesis
    using assms(1) fresh
    by (simp add: allocate_ok gen_block_id_def buffer_at_def page_map_find_def NULL_def)
qed

theorem allocate_resident_pinned_witness:
  "assert_passes sample_cfg (1 = cpu_event_queue (mirrored_cache_t 1 4 8)) \<and>
   cache_inv (mirrored_cache_t 1 4 8) \<and>
   (\<exists>s'. allocate sample_cfg 1 (mirrored_cache_t 1 4 8) = Inr ((1, 0), s') \<and>
          buffer_at s' 1 = Some (replicate 4 0) \<and> page_map_find 0 s' = 1 \<and> pin_count s' 0 = 1)"
proof -
  have h1: "assert_passes sample_cfg
      (1 = cpu_event_queue (mirrored_cache_t 1 4 8))"
    by (simp add: assert_passes_def mirrored_cache_t_def sample_cfg_def)
  have h2: "cache_inv (mirrored_cache_t 1 4 8)"
    by (simp add: cache_inv_def mirrored_cache_t_def)
  from allocate_resident_pinned [OF h1 h2] h1 h2 show ?thesis
    by (auto simp: run_defs sample_cfg_def)
qed

text \<open>
  C4 does not hold with a zero-initialized buffer when the allocator does not clear memory:
  with one that leaves the byte 255, the buffer \<^verbatim>\<open>allocate\<close> returns (the first one,
  for the new block 0) holds four bytes 255.
\<close>

theorem allocate_buffer_not_zeroed:
  "allocate (sample_cfg\<lparr>malloc_fill := 255\<rparr>) 1 (mirrored_cache_t 1 4 8) =
     Inr ((1, 0),
          (mirrored_cache_t 1 4 8)
            \<lparr>next_block_id := 1, buffers := [replicate 4 255],
             page_map := (page_map (mirrored_cache_t 1 4 8))(0 \<mapsto> 1),
             pin_count := (pin_count (mirrored_cache_t 1 4 8))(0 := 1)\<rparr>) \<and>
   replicate 4 (255 :: byte) \<noteq> replicate 4 0"
  by (simp add: run_defs sample_cfg_def)

text \<open>
  C5. When the page map has a resident buffer for the block id, \<^verbatim>\<open>acquire\<close> pins the
  block id and returns the mapped buffer at once: the only change of state is the raised pin
  count, so no read is issued, no buffer allocated and no context created.
\<close>

theorem acquire_resident_synchronous:
  assumes "assert_passes cfg (tm = cpu_event_queue s)" and "page_map_find bid s \<noteq> NULL"
  shows "\<exists>s'. acquire cfg tm bid state s = Inr (page_map_find bid s, s') \<and>
           s' = page_repl_pin bid s \<and>
           pin_count s' = (pin_count s)(bid := Suc (pin_count s bid)) \<and>
           page_map s' = page_map s \<and> buffers s' = buffers s \<and>
           reads s' = reads s \<and> writes s' = writes s \<and> contexts s' = contexts s"
  using assms by (simp add: acquire_hit page_repl_pin_def)

theorem acquire_resident_synchronous_witness:
  "assert_passes sample_cfg (1 = cpu_event_queue sample_state) \<and>
   page_map_find 7 sample_state \<noteq> NULL \<and>
   (\<exists>s'. acquire sample_cfg 1 7 9 sample_state = Inr (1, s') \<and>
         pin_count s' 7 = 2 \<and> reads s' = reads sample_state \<and>
         contexts s' = contexts sample_state)"
proof -
  have h1: "assert_passes sample_cfg (1 = cpu_event_queue sample_state)"
    by (simp add: assert_passes_def sample_state_def)
  have h2: "page_map_find 7 sample_state \<noteq> NULL"
    by (simp add: page_map_find_def sample_state_def NULL_def)
  from acquire_resident_synchronous [OF h1 h2, of 9] h1 h2 show ?thesis
    by (auto simp: page_map_find_def sample_state_def)
qed

text \<open>
  C6. In a debug build \<^verbatim>\<open>end_transaction\<close> fails its assertion when the transaction belongs
  to another event queue than the running thread's, but \<^verbatim>\<open>aio_complete\<close> does not
  detect a completion delivered on another thread than the one that issued the I/O. A read
  is issued on the thread that owns event queue 1, so its context records queue 1; the
  completion is then delivered on the thread that owns event queue 2. The run ends normally
  with the block registered and pinned, whereas \<^verbatim>\<open>end_transaction\<close> for transaction 1
  on that same thread fails its assertion.
\<close>

theorem aio_complete_other_queue_not_detected:
  "map_sum id (\<lambda>s. (ctx_deref s 1, get_cpu_context_event_queue s))
     (run sample_cfg [Acquire 1 7 9, Run_Thread 2]
        (mirrored_cache_t 1 4 8)) =
     Inr (Some \<lparr>user_state = 9, block_id = 7, event_queue = Some 1\<rparr>, 2) \<and>
   map_sum id (\<lambda>s. (page_map s 7, pin_count s 7))
     (run sample_cfg [Acquire 1 7 9, Run_Thread 2, Read_Done 0]
        (mirrored_cache_t 1 4 8)) =
     Inr (Some 1, 1) \<and>
   end_transaction sample_cfg 1
     ((mirrored_cache_t 1 4 8)\<lparr>cpu_event_queue := 2\<rparr>) = Inl Assertion_Failed"
  by (simp add: run_defs sample_cfg_def end_transaction_def)

text \<open>
  C7. For a block id that is fresh (its pin count is zero when the serializer generates it),
  \<^verbatim>\<open>allocate\<close> followed at once by \<^verbatim>\<open>release\<close> with \<open>dirty = false\<close> leaves the
  block resident with pin count zero, and a following \<^verbatim>\<open>acquire\<close> of that block id
  returns the same buffer at once: the reads and writes in flight and the contexts are what
  they were before the three calls, and no further buffer is allocated.
\<close>

theorem allocate_release_acquire_roundtrip:
  assumes "assert_passes cfg (tm = cpu_event_queue s)"
    and "pin_count s (fst (gen_block_id s)) = 0"
  shows "\<exists>block bid s1 s2 s3.
     allocate cfg tm s = Inr ((block, bid), s1) \<and> bid = fst (gen_block_id s) \<and>
     release cfg tm bid block False state s1 = Inr (bid, s2) \<and>
     page_map s2 bid = Some block \<and> pin_count s2 bid = 0 \<and>
     acquire cfg tm bid state' s2 = Inr (block, s3) \<and>
     reads s3 = reads s \<and> writes s3 = writes s \<and> contexts s3 = contexts s \<and>
     buffers s3 = buffers s1 \<and> page_map s3 = page_map s2 \<and> pin_count s3 bid = 1"
proof -
  let ?b = "next_block_id s" and ?p = "Suc (length (buffers s))"
  let ?s1 = "s\<lparr>next_block_id := Suc ?b,
           buffers := buffers s @ [replicate (block_size s) (malloc_fill cfg)],
           page_map := (page_map s)(?b \<mapsto> ?p),
           pin_count := (pin_count s)(?b := Suc (pin_count s ?b))\<rparr>"
  let ?s2 = "?s1\<lparr>pin_count := (pin_count ?s1)(?b := pin_count ?s1 ?b - 1)\<rparr>"
  let ?s3 = "?s2\<lparr>pin_count := (pin_count ?s2)(?b := Suc (pin_count ?s2 ?b))\<rparr>"
  have ok1: "assert_passes cfg (tm = cpu_event_queue ?s1)"
    and ok2: "assert_passes cfg (tm = cpu_event_queue ?s2)"
    using assms(1) by simp_all
  have a: "allocate cfg tm s = Inr ((?p, ?b), ?s1)"
    using assms(1) by (rule allocate_ok)
  have g: "?b = fst (gen_block_id s)"
    by (simp add: gen_block_id_def)
  have r: "release cfg tm ?b ?p False state ?s1 = Inr (?b, ?s2)"
    using ok1 by (rule release_clean) simp
  have f: "page_map_find ?b ?s2 = ?p"
    by (simp add: page_map_find_def)
  have q: "acquire cfg tm ?b state' ?s2 = Inr (?p, ?s3)"
    using acquire_hit [OF ok2, of ?b state'] f by (simp add: NULL_def)
  have m: "page_map ?s2 ?b = Some ?p" and z: "pin_count ?s2 ?b = 0"
    using assms(2) by (simp_all add: gen_block_id_def)
  have rest: "reads ?s3 = reads s" "writes ?s3 = writes s" "contexts ?s3 = contexts s"
    "buffers ?s3 = buffers ?s1" "page_map ?s3 = page_map ?s2" "pin_count ?s3 ?b = 1"
    using assms(2) by (simp_all add: gen_block_id_def)
  from a g r m z q rest show ?thesis
    by blast
qed

theorem allocate_release_acquire_roundtrip_witness:
  "assert_passes sample_cfg
      (1 = cpu_event_queue (mirrored_cache_t 1 4 8)) \<and>
   pin_count (mirrored_cache_t 1 4 8) (fst (gen_block_id (mirrored_cache_t 1 4 8))) = 0 \<and>
   (\<exists>s1 s2 s3.
     allocate sample_cfg 1 (mirrored_cache_t 1 4 8) = Inr ((1, 0), s1) \<and>
     release sample_cfg 1 0 1 False 9 s1 = Inr (0, s2) \<and>
     page_map s2 0 = Some 1 \<and> pin_count s2 0 = 0 \<and>
     acquire sample_cfg 1 0 5 s2 = Inr (1, s3) \<and>
     reads s3 = [] \<and> writes s3 = [] \<and> contexts s3 = [])"
proof -
  have h1: "assert_passes sample_cfg
      (1 = cpu_event_queue (mirrored_cache_t 1 4 8))"
    by (simp add: assert_passes_def mirrored_cache_t_def sample_cfg_def)
  have h2: "pin_count (mirrored_cache_t 1 4 8) (fst (gen_block_id (mirrored_cache_t 1 4 8))) = 0"
    by (simp add: mirrored_cache_t_def)
  from allocate_release_acquire_roundtrip [OF h1 h2, of 9 5] h1 h2 show ?thesis
    by (auto simp: run_defs sample_cfg_def)
qed

text \<open>
  C8. A second \<^verbatim>\<open>acquire\<close> for a block whose read is still in flight creates a second
  buffer for it. After two calls of \<^verbatim>\<open>acquire\<close> for block 7 on an empty cache, two
  buffers are allocated and two reads of block 7 are in flight, one into each buffer. Once
  both reads have completed the page map holds buffer 2 for block 7, and buffer 1, still
  allocated, is registered nowhere.
\<close>

theorem second_acquire_in_flight_allocates_again:
  "map_sum id (\<lambda>s. (map rq_block_id (reads s), map rq_buf (reads s), length (buffers s),
                     page_map s 7))
     (run sample_cfg [Acquire 1 7 9, Acquire 1 7 10]
        (mirrored_cache_t 1 4 8)) =
     Inr ([7, 7], [1, 2], 2, None) \<and>
   map_sum id (\<lambda>s. (page_map s, length (buffers s), reads s))
     (run sample_cfg
        [Acquire 1 7 9, Acquire 1 7 10, Read_Done 0, Read_Done 0] (mirrored_cache_t 1 4 8)) =
     Inr ([7 \<mapsto> 2], 2, [])"
  by (simp add: run_defs sample_cfg_def numeral_2_eq_2)

text \<open>
  C9. When the page map has no buffer for the block id, \<^verbatim>\<open>acquire\<close> returns the null
  pointer and leaves the page map and every pin count as they were: the block id still has
  no entry, and the buffer just allocated is not registered.
\<close>

theorem acquire_absent_pending:
  assumes "assert_passes cfg (tm = cpu_event_queue s)" and "page_map_find bid s = NULL"
  shows "\<exists>s'. acquire cfg tm bid state s = Inr (NULL, s') \<and>
           page_map s' = page_map s \<and> pin_count s' = pin_count s \<and>
           page_map_find bid s' = NULL"
  using assms by (simp add: acquire_miss page_map_find_def)

theorem acquire_absent_pending_witness:
  "assert_passes sample_cfg (1 = cpu_event_queue (mirrored_cache_t 1 4 8)) \<and>
   page_map_find 7 (mirrored_cache_t 1 4 8) = NULL \<and>
   (\<exists>s'. acquire sample_cfg 1 7 9 (mirrored_cache_t 1 4 8) = Inr (NULL, s') \<and>
         page_map s' 7 = None \<and> pin_count s' 7 = 0)"
proof -
  have h1: "assert_passes sample_cfg
      (1 = cpu_event_queue (mirrored_cache_t 1 4 8))"
    by (simp add: assert_passes_def mirrored_cache_t_def sample_cfg_def)
  have h2: "page_map_find 7 (mirrored_cache_t 1 4 8) = NULL"
    by (simp add: page_map_find_def mirrored_cache_t_def)
  have h3: "page_map (mirrored_cache_t 1 4 8) 7 = None" "pin_count (mirrored_cache_t 1 4 8) 7 = 0"
    by (simp_all add: mirrored_cache_t_def)
  from acquire_absent_pending [OF h1 h2, of 9] h1 h2 h3 show ?thesis
    by auto
qed

text \<open>
  C10. \<^verbatim>\<open>aio_complete\<close> with \<open>written = true\<close>, called with a live context for a
  pinned block, returns; and whenever it returns, the state differs from the one before
  only in that the context is deleted and the pin count of the context's block id is one
  lower; the page map is the same. So under a copy-on-write serializer,
  after a dirty release of a resident block that returned a new block id, the flush of that
  block and the completion of its write, the buffer is still resident under the block id
  given to \<^verbatim>\<open>release\<close> and the new block id has no page map entry.
\<close>

theorem aio_complete_written_frame:
  "(ctx_deref s ctx = Some c \<and> assert_passes cfg (cpu_event_queue s \<noteq> NULL) \<and>
    0 < pin_count s (block_id c) \<longrightarrow>
      aio_complete cfg ctx block True s =
        Inr (s\<lparr>contexts := (contexts s)[ctx - 1 := None],
               pin_count := (pin_count s)(block_id c := pin_count s (block_id c) - 1)\<rparr>)) \<and>
   (aio_complete cfg ctx block True s = Inr s' \<longrightarrow>
      (\<exists>c. ctx_deref s ctx = Some c \<and>
         s' = s\<lparr>contexts := (contexts s)[ctx - 1 := None],
                pin_count := (pin_count s)(block_id c := pin_count s (block_id c) - 1)\<rparr>) \<and>
      page_map s' = page_map s) \<and>
   (copy_on_write cfg \<and> assert_passes cfg (tm = cpu_event_queue s \<and> tm \<noteq> NULL) \<and>
    page_map s bid = Some block \<and> page_map s (fst (gen_block_id s)) = None \<and>
    0 < pin_count s bid \<longrightarrow>
      (\<exists>new_id s1 s3.
         release cfg tm bid block True state s = Inr (new_id, s1) \<and> new_id \<noteq> bid \<and>
         run cfg [Flush (length (dirty s)), Write_Done (length (writes s))] s1 = Inr s3 \<and>
         page_map s3 bid = Some block \<and> page_map s3 new_id = None \<and>
         pin_count s3 bid = pin_count s bid - 1))"
proof (intro conjI impI)
  assume "ctx_deref s ctx = Some c \<and> assert_passes cfg (cpu_event_queue s \<noteq> NULL) \<and>
    0 < pin_count s (block_id c)"
  then show "aio_complete cfg ctx block True s =
        Inr (s\<lparr>contexts := (contexts s)[ctx - 1 := None],
               pin_count := (pin_count s)(block_id c := pin_count s (block_id c) - 1)\<rparr>)"
    using aio_complete_write [of s ctx c cfg block] by blast
next
  assume "aio_complete cfg ctx block True s = Inr s'"
  from aio_complete_write_only_unpins [OF this]
  show "\<exists>c. ctx_deref s ctx = Some c \<and>
         s' = s\<lparr>contexts := (contexts s)[ctx - 1 := None],
                pin_count := (pin_count s)(block_id c := pin_count s (block_id c) - 1)\<rparr>"
    by blast
next
  assume "aio_complete cfg ctx block True s = Inr s'"
  from aio_complete_write_only_unpins [OF this]
  show "page_map s' = page_map s"
    by auto
next
  assume h: "copy_on_write cfg \<and> assert_passes cfg (tm = cpu_event_queue s \<and> tm \<noteq> NULL) \<and>
    page_map s bid = Some block \<and> page_map s (fst (gen_block_id s)) = None \<and>
    0 < pin_count s bid"
  let ?n = "next_block_id s"
  let ?d = "\<lparr>d_tm = tm, d_block_id = bid, d_block = block, d_state = state, d_new_id = ?n\<rparr>"
  let ?s0 = "s\<lparr>next_block_id := Suc ?n\<rparr>"
  let ?s1 = "?s0\<lparr>dirty := dirty s @ [?d]\<rparr>"
  let ?c = "\<lparr>user_state = state, block_id = bid,
              event_queue = (if ndebug cfg then None else Some tm)\<rparr>"
  let ?s2 = "?s0\<lparr>dirty := dirty s, contexts := contexts s @ [Some ?c],
                 writes := writes s @ [\<lparr>rq_tm = tm, rq_block_id = ?n, rq_buf = block,
                                        rq_ctx = Suc (length (contexts s))\<rparr>]\<rparr>"
  let ?s2' = "?s2\<lparr>writes := writes s\<rparr>"
  let ?s3 = "?s2'\<lparr>contexts := (contexts ?s2')[Suc (length (contexts s)) - 1 := None],
                 pin_count := (pin_count ?s2')(block_id ?c := pin_count ?s2' (block_id ?c) - 1)\<rparr>"
  have ok: "assert_passes cfg (tm = cpu_event_queue s)"
    and nn: "assert_passes cfg (cpu_event_queue ?s2' \<noteq> NULL)"
    using h by (auto simp: assert_passes_def)
  have rel: "release cfg tm bid block True state s = Inr (?n, ?s1)"
    using release_dirty [OF ok, of bid block state] h by simp
  have ne: "?n \<noteq> bid"
    using h by (auto simp: gen_block_id_def)
  have fl: "writeback_flush cfg (length (dirty s)) ?s1 = ?s2"
    using writeback_flush_last [where cfg = cfg and ds = "dirty s" and s = ?s0 and d = ?d]
    by simp
  have deref: "ctx_deref ?s2' (Suc (length (contexts s))) = Some ?c"
    by (simp add: ctx_deref_def)
  have pinned: "0 < pin_count ?s2' (block_id ?c)"
    using h by simp
  have wd: "step cfg (Write_Done (length (writes s))) ?s2 = Inr ?s3"
    using aio_complete_write [OF deref nn pinned, of block]
    by (simp add: remove_nth_def)
  have rn: "run cfg [Flush (length (dirty s)), Write_Done (length (writes s))] ?s1 = Inr ?s3"
    using fl wd by simp
  have pm: "page_map ?s3 bid = Some block" "page_map ?s3 ?n = None"
    "pin_count ?s3 bid = pin_count s bid - 1"
    using h by (simp_all add: gen_block_id_def)
  from rel ne rn pm
  show "\<exists>new_id s1 s3.
         release cfg tm bid block True state s = Inr (new_id, s1) \<and> new_id \<noteq> bid \<and>
         run cfg [Flush (length (dirty s)), Write_Done (length (writes s))] s1 = Inr s3 \<and>
         page_map s3 bid = Some block \<and> page_map s3 new_id = None \<and>
         pin_count s3 bid = pin_count s bid - 1"
    by blast
qed

theorem aio_complete_written_frame_witness:
  "(ctx_deref sample_state 1 = Some \<lparr>user_state = 9, block_id = 7, event_queue = Some 1\<rparr> \<and>
    assert_passes sample_cfg (cpu_event_queue sample_state \<noteq> NULL) \<and>
    0 < pin_count sample_state (block_id \<lparr>user_state = 9, block_id = 7, event_queue = Some 1\<rparr>)) \<and>
   aio_complete sample_cfg 1 1 True sample_state =
     Inr (sample_state\<lparr>contexts := [None], pin_count := (\<lambda>_. 0)(7 := 0)\<rparr>) \<and>
   page_map (sample_state\<lparr>contexts := [None], pin_count := (\<lambda>_. 0)(7 := 0)\<rparr>) =
     page_map sample_state \<and>
   (copy_on_write sample_cfg \<and>
    assert_passes sample_cfg (1 = cpu_event_queue sample_state \<and> 1 \<noteq> NULL) \<and>
    page_map sample_state 7 = Some 1 \<and>
    page_map sample_state (fst (gen_block_id sample_state)) = None \<and>
    0 < pin_count sample_state 7) \<and>
   (\<exists>s1 s3. release sample_cfg 1 7 1 True 9 sample_state = Inr (8, s1) \<and>
      run sample_cfg [Flush 0, Write_Done 0] s1 = Inr s3 \<and>
      page_map s3 7 = Some 1 \<and> page_map s3 8 = None)"
proof -
  let ?c = "\<lparr>user_state = 9, block_id = 7, event_queue = Some 1\<rparr>"
  have h0: "ctx_deref sample_state 1 = Some ?c \<and>
    assert_passes sample_cfg (cpu_event_queue sample_state \<noteq> NULL) \<and>
    0 < pin_count sample_state (block_id ?c)"
    by (simp add: sample_cfg_def sample_state_def ctx_deref_def assert_passes_def NULL_def)
  have h1: "aio_complete sample_cfg 1 1 True sample_state =
     Inr (sample_state\<lparr>contexts := [None], pin_count := (\<lambda>_. 0)(7 := 0)\<rparr>)"
    by (simp add: sample_cfg_def sample_state_def run_defs)
  have h2: "copy_on_write sample_cfg \<and>
    assert_passes sample_cfg (1 = cpu_event_queue sample_state \<and> 1 \<noteq> NULL) \<and>
    page_map sample_state 7 = Some 1 \<and>
    page_map sample_state (fst (gen_block_id sample_state)) = None \<and>
    0 < pin_count sample_state 7"
    by (simp add: sample_cfg_def sample_state_def assert_passes_def gen_block_id_def NULL_def)
  have e: "release sample_cfg 1 7 1 True 9 sample_state = Inr (new_id, s1) \<Longrightarrow> new_id = 8"
    for new_id s1
    by (simp add: sample_cfg_def sample_state_def run_defs)
  have d: "dirty sample_state = []" "writes sample_state = []"
    by (simp_all add: sample_state_def)
  from aio_complete_written_frame [where cfg = sample_cfg and ctx = 1 and block = 1
      and s = sample_state and tm = 1 and bid = 7 and state = 9 and c = ?c
      and s' = "sample_state\<lparr>contexts := [None], pin_count := (\<lambda>_. 0)(7 := 0)\<rparr>"] h0 h1 h2
  show ?thesis
    using e d by (auto simp del: run.simps)
qed

end
